theory Spec2Isabelle
  imports Main "HOL-Library.Sublist" "HOL-Library.AList"
begin

section \<open>Python strings\<close>

text \<open>
  The script works on Python \<^verbatim>\<open>str\<close> values: sequences of Unicode code points, whose
  length and indices count code points. A string is modelled as the list of its code
  points, each the integer that \<^verbatim>\<open>ord\<close> gives; \<open>str\<close> turns an ASCII literal into
  such a list.
\<close>

type_synonym pystr = "int list"

definition str :: "string \<Rightarrow> pystr" where
  "str cs = map of_char cs"

text \<open>The exceptions the script can meet.\<close>

datatype error =
    IndexError | KeyError | AttributeError | ValueError
  | FileNotFoundError | IsADirectoryError | PermissionError | OSError
  | UnicodeDecodeError | UnicodeEncodeError

text \<open>
  \<^verbatim>\<open>str.isspace\<close> on one character, which is also what \<^verbatim>\<open>str.strip()\<close>,
  \<^verbatim>\<open>str.split()\<close> and the pattern \<^verbatim>\<open>\s\<close> test: the Unicode white space characters.
\<close>

definition isspace :: "int \<Rightarrow> bool" where
  "isspace c \<longleftrightarrow>
     (0x09 \<le> c \<and> c \<le> 0x0D) \<or> (0x1C \<le> c \<and> c \<le> 0x20) \<or> c = 0x85 \<or> c = 0xA0 \<or>
     c = 0x1680 \<or> (0x2000 \<le> c \<and> c \<le> 0x200A) \<or> c = 0x2028 \<or> c = 0x2029 \<or>
     c = 0x202F \<or> c = 0x205F \<or> c = 0x3000"

text \<open>\<^verbatim>\<open>s.strip()\<close>: white space removed at both ends.\<close>

definition strip :: "pystr \<Rightarrow> pystr" where
  "strip s = rev (dropWhile isspace (rev (dropWhile isspace s)))"

text \<open>\<^verbatim>\<open>s.lstrip(chars)\<close>: every leading character that occurs in \<open>chars\<close> is removed.\<close>

definition lstrip :: "pystr \<Rightarrow> pystr \<Rightarrow> pystr" where
  "lstrip s chars = dropWhile (\<lambda>c. c \<in> set chars) s"

text \<open>\<^verbatim>\<open>s.startswith(p)\<close>.\<close>

definition startswith :: "pystr \<Rightarrow> pystr \<Rightarrow> bool" where
  "startswith s p = prefix p s"

text \<open>
  \<^verbatim>\<open>s.split()\<close> with no separator: the maximal runs of characters that are not white
  space, in order; leading and trailing white space gives no empty field.
\<close>

function split_ws :: "pystr \<Rightarrow> pystr list" where
  "split_ws s =
     (case dropWhile isspace s of
        [] \<Rightarrow> []
      | c # cs \<Rightarrow> (c # takeWhile (\<lambda>x. \<not> isspace x) cs) # split_ws (dropWhile (\<lambda>x. \<not> isspace x) cs))"
  by pat_completeness auto
termination
proof (relation "measure length")
  show "wf (measure length)" by simp
next
  fix s :: pystr and c cs
  assume "dropWhile isspace s = c # cs"
  then have "length (c # cs) \<le> length s"
    by (metis length_dropWhile_le)
  moreover have "length (dropWhile (\<lambda>x. \<not> isspace x) cs) \<le> length cs"
    by (rule length_dropWhile_le)
  ultimately show "(dropWhile (\<lambda>x. \<not> isspace x) cs, s) \<in> measure length"
    by simp
qed

declare split_ws.simps [simp del]

text \<open>\<^verbatim>\<open>xs[i]\<close> for an index \<open>i \<ge> 0\<close>: IndexError when out of range.\<close>

definition getitem :: "'a list \<Rightarrow> nat \<Rightarrow> error + 'a" where
  "getitem xs i = (if i < length xs then Inr (xs ! i) else Inl IndexError)"

text \<open>\<^verbatim>\<open>sep.join(xs)\<close>.\<close>

fun join :: "pystr \<Rightarrow> pystr list \<Rightarrow> pystr" where
  "join sep [] = []"
| "join sep [x] = x"
| "join sep (x # y # ys) = x @ sep @ join sep (y # ys)"

text \<open>
  \<^verbatim>\<open>s.center(width)\<close> with the default fill character, a space: a string at least
  \<open>width\<close> long is returned as it is; otherwise the missing \<open>width - len(s)\<close> spaces go
  left and right, the left side taking the extra one when both the margin and the width
  are odd.
\<close>

definition center :: "pystr \<Rightarrow> nat \<Rightarrow> pystr" where
  "center s width =
     (if width \<le> length s then s
      else let marg = width - length s;
               left = marg div 2 + (if odd marg \<and> odd width then 1 else 0)
           in replicate left 32 @ s @ replicate (marg - left) 32)"

section \<open>What the interpreter supplies\<close>

text \<open>
  Some of what the script uses is decided by the Python runtime, its Unicode tables and
  the platform, not by the repository:
  \<^item> the case mapping behind \<^verbatim>\<open>str.capitalize\<close>;
  \<^item> which characters \<^verbatim>\<open>\d\<close> and \<^verbatim>\<open>int\<close> take as decimal digits, and their values;
  \<^item> the limit on the number of digits \<^verbatim>\<open>int\<close> accepts (absent in older interpreters);
  \<^item> the last component that \<^verbatim>\<open>pathlib\<close> finds in a path;
  \<^item> whether the platform writes a line end as \<^verbatim>\<open>\r\n\<close>;
  \<^item> which texts the default encoding of files can encode, and which texts standard
    output can.
  They are parameters of the model, so that every theorem holds whatever the interpreter
  supplies.
\<close>

record runtime =
  capitalize :: "pystr \<Rightarrow> pystr"
  decimal :: "int \<Rightarrow> int option"
  max_str_digits :: "nat option"
  path_name :: "pystr \<Rightarrow> pystr"
  crlf :: bool
  encodable :: "pystr \<Rightarrow> bool"
  printable :: "pystr \<Rightarrow> bool"

text \<open>
  On ASCII text the case mapping is fixed: \<^verbatim>\<open>capitalize\<close> puts the first character in
  upper case and every other character in lower case; a character that is not a letter
  is kept.
\<close>

definition ascii_upper :: "int \<Rightarrow> int" where
  "ascii_upper c = (if 97 \<le> c \<and> c \<le> 122 then c - 32 else c)"

definition ascii_lower :: "int \<Rightarrow> int" where
  "ascii_lower c = (if 65 \<le> c \<and> c \<le> 90 then c + 32 else c)"

fun ascii_capitalize :: "pystr \<Rightarrow> pystr" where
  "ascii_capitalize [] = []"
| "ascii_capitalize (c # cs) = ascii_upper c # map ascii_lower cs"

definition ascii_decimal :: "int \<Rightarrow> int option" where
  "ascii_decimal c = (if 48 \<le> c \<and> c \<le> 57 then Some (c - 48) else None)"

text \<open>
  \<open>posix_name\<close>: the last component of a POSIX path, empty and \<^verbatim>\<open>.\<close> components
  skipped.
\<close>

fun split_on :: "int \<Rightarrow> pystr \<Rightarrow> pystr list" where
  "split_on d [] = [[]]"
| "split_on d (c # cs) =
     (if c = d then [] # split_on d cs
      else case split_on d cs of [] \<Rightarrow> [[c]] | w # ws \<Rightarrow> (c # w) # ws)"

definition posix_name :: "pystr \<Rightarrow> pystr" where
  "posix_name p =
     (case rev (filter (\<lambda>w. w \<noteq> [] \<and> w \<noteq> str ''.'') (split_on 47 p)) of
        [] \<Rightarrow> [] | w # _ \<Rightarrow> w)"

text \<open>UTF-8 encodes every code point but the surrogates.\<close>

definition utf8_encodable :: "pystr \<Rightarrow> bool" where
  "utf8_encodable text =
     list_all (\<lambda>c. 0 \<le> c \<and> c \<le> 0x10FFFF \<and> \<not> (0xD800 \<le> c \<and> c \<le> 0xDFFF)) text"

text \<open>
  The instance at which concrete runs are evaluated: ASCII case mapping and digits, POSIX
  paths and line ends, UTF-8 for files and for standard output.
\<close>

definition ascii_runtime :: runtime where
  "ascii_runtime =
     \<lparr>capitalize = ascii_capitalize, decimal = ascii_decimal,
      max_str_digits = Some 4300, path_name = posix_name,
      crlf = False, encodable = utf8_encodable, printable = utf8_encodable\<rparr>"

text \<open>
  \<open>ascii_cases U\<close>: the interpreter capitalizes ASCII strings the ASCII way, as every
  Python 3 does.
\<close>

definition ascii_cases :: "runtime \<Rightarrow> bool" where
  "ascii_cases U \<longleftrightarrow> (\<forall>s. (\<forall>c\<in>set s. 0 \<le> c \<and> c < 128) \<longrightarrow> capitalize U s = ascii_capitalize s)"

section \<open>The binding decoder\<close>

text \<open>\<^verbatim>\<open>KEY_DISPLAY\<close>, in the order of the source.\<close>

definition KEY_DISPLAY :: "(pystr \<times> pystr) list" where
  "KEY_DISPLAY = [
    (str ''kp A'', str ''A''), (str ''kp B'', str ''B''), (str ''kp C'', str ''C''),
    (str ''kp D'', str ''D''), (str ''kp E'', str ''E''), (str ''kp F'', str ''F''),
    (str ''kp G'', str ''G''), (str ''kp H'', str ''H''), (str ''kp I'', str ''I''),
    (str ''kp J'', str ''J''), (str ''kp K'', str ''K''), (str ''kp L'', str ''L''),
    (str ''kp M'', str ''M''), (str ''kp N'', str ''N''), (str ''kp O'', str ''O''),
    (str ''kp P'', str ''P''), (str ''kp Q'', str ''Q''), (str ''kp R'', str ''R''),
    (str ''kp S'', str ''S''), (str ''kp T'', str ''T''), (str ''kp U'', str ''U''),
    (str ''kp V'', str ''V''), (str ''kp W'', str ''W''), (str ''kp X'', str ''X''),
    (str ''kp Y'', str ''Y''), (str ''kp Z'', str ''Z''), (str ''kp N0'', str ''0''),
    (str ''kp N1'', str ''1''), (str ''kp N2'', str ''2''), (str ''kp N3'', str ''3''),
    (str ''kp N4'', str ''4''), (str ''kp N5'', str ''5''), (str ''kp N6'', str ''6''),
    (str ''kp N7'', str ''7''), (str ''kp N8'', str ''8''), (str ''kp N9'', str ''9''),
    (str ''kp TAB'', str ''Tab''), (str ''kp ESCAPE'', str ''Esc''),
    (str ''kp ESC'', str ''Esc''), (str ''kp LEFT_CONTROL'', str ''Ctrl''),
    (str ''kp LCTRL'', str ''Ctrl''), (str ''kp RIGHT_CONTROL'', str ''Ctrl''),
    (str ''kp LEFT_SHIFT'', str ''Shift''), (str ''kp LSHFT'', str ''Shift''),
    (str ''kp RIGHT_SHIFT'', str ''Shift''), (str ''kp LEFT_ALT'', str ''Alt''),
    (str ''kp LALT'', str ''Alt''), (str ''kp RIGHT_ALT'', str ''AltGr''),
    (str ''kp LGUI'', str ''GUI''), (str ''kp RGUI'', str ''GUI''),
    (str ''kp SPACE'', str ''Space''), (str ''kp BACKSPACE'', str ''Bksp''),
    (str ''kp RET'', str ''Enter''), (str ''kp ENTER'', str ''Enter''),
    (str ''kp SEMICOLON'', str '';''), (str ''kp SEMI'', str '';''), (str ''kp SQT'', [39]),
    (str ''kp APOS'', [39]), (str ''kp COMMA'', str '',''), (str ''kp DOT'', str ''.''),
    (str ''kp FSLH'', str ''/''), (str ''kp SLASH'', str ''/''), (str ''kp BSLH'', [92]),
    (str ''kp BACKSLASH'', [92]), (str ''kp LBKT'', str ''[''), (str ''kp RBKT'', str '']''),
    (str ''kp LBRC'', str ''{''), (str ''kp RBRC'', str ''}''), (str ''kp LPAR'', str ''(''),
    (str ''kp RPAR'', str '')''), (str ''kp MINUS'', str ''-''),
    (str ''kp EQUAL'', str ''=''), (str ''kp PLUS'', str ''+''),
    (str ''kp UNDER'', str ''_''), (str ''kp GRAVE'', str ''`''),
    (str ''kp TILDE'', str ''~''), (str ''kp EXCL'', str ''!''), (str ''kp AT'', str ''@''),
    (str ''kp HASH'', str ''#''), (str ''kp DLLR'', str ''$''),
    (str ''kp PRCNT'', str ''%''), (str ''kp CARET'', str ''^''),
    (str ''kp AMPS'', str ''&''), (str ''kp ASTRK'', str ''*''),
    (str ''kp PIPE'', str ''|''), (str ''kp LEFT'', [0x2190]), (str ''kp RIGHT'', [0x2192]),
    (str ''kp UP'', [0x2191]), (str ''kp DOWN'', [0x2193]), (str ''kp HOME'', str ''Home''),
    (str ''kp END'', str ''End''), (str ''kp PG_UP'', str ''PgUp''),
    (str ''kp PG_DN'', str ''PgDn''), (str ''bt BT_CLR'', str ''BT Clr''),
    (str ''bt BT_SEL 0'', str ''BT 0''), (str ''bt BT_SEL 1'', str ''BT 1''),
    (str ''bt BT_SEL 2'', str ''BT 2''), (str ''bt BT_SEL 3'', str ''BT 3''),
    (str ''bt BT_SEL 4'', str ''BT 4''), (str ''sys_reset'', str ''Reset''),
    (str ''bootloader'', str ''Boot''), (str ''trans'', [0x25BD]), (str ''none'', [0x2715])]"

text \<open>
  \<^verbatim>\<open>parse_binding\<close>. The index 1 into the fields of the split is the one place where
  the function could raise.
\<close>

definition parse_binding :: "runtime \<Rightarrow> pystr \<Rightarrow> error + pystr" where
  "parse_binding U binding0 =
     (let binding = lstrip (strip binding0) (str ''&'') in
      if startswith binding (str ''mo '') then
        (case getitem (split_ws binding) 1 of
           Inl e \<Rightarrow> Inl e
         | Inr layer_num \<Rightarrow> Inr (str ''L'' @ layer_num))
      else if startswith binding (str ''to '') then
        (case getitem (split_ws binding) 1 of
           Inl e \<Rightarrow> Inl e
         | Inr layer_num \<Rightarrow> Inr (str ''TO'' @ layer_num))
      else if startswith binding (str ''lt '') then
        (case getitem (split_ws binding) 1 of
           Inl e \<Rightarrow> Inl e
         | Inr part \<Rightarrow> Inr (str ''LT'' @ part))
      else
        (case map_of KEY_DISPLAY binding of
           Some label \<Rightarrow> Inr label
         | None \<Rightarrow>
             if startswith binding (str ''kp '') then Inr (capitalize U (drop 3 binding))
             else Inr (take 6 binding)))"

section \<open>Regular expressions\<close>

text \<open>
  The patterns of the script use a small part of \<^verbatim>\<open>re\<close>: literals, the greedy or lazy
  repetition of a character class, alternation and capture groups. A pattern is a list of
  items. \<open>Greedy P n\<close> is a character of the class \<open>P\<close>, at least \<open>n\<close> times and as often
  as possible; \<open>Lazy P n\<close> the same, as seldom as possible. \<open>EndGroup\<close> is not written in
  a pattern: the matcher puts it behind the body of a group, with the text at which the
  group began.
\<close>

datatype item =
    Lit pystr
  | Greedy "int \<Rightarrow> bool" nat
  | Lazy "int \<Rightarrow> bool" nat
  | Alt "item list" "item list"
  | Group nat "item list"
  | EndGroup nat pystr

fun isize :: "item \<Rightarrow> nat" where
  "isize (Lit l) = 1"
| "isize (Greedy P n) = 1"
| "isize (Lazy P n) = 1"
| "isize (Alt a b) = Suc (sum_list (map isize a) + sum_list (map isize b))"
| "isize (Group i r) = Suc (Suc (sum_list (map isize r)))"
| "isize (EndGroup i s) = 1"

fun first_some :: "('a \<Rightarrow> 'b option) \<Rightarrow> 'a list \<Rightarrow> 'b option" where
  "first_some f [] = None"
| "first_some f (x # xs) = (case f x of Some r \<Rightarrow> Some r | None \<Rightarrow> first_some f xs)"

lemma first_some_cong [fundef_cong]:
  "xs = ys \<Longrightarrow> (\<And>x. x \<in> set ys \<Longrightarrow> f x = g x) \<Longrightarrow> first_some f xs = first_some g ys"
  by (induction ys arbitrary: xs) (auto split: option.splits)

text \<open>
  The backtracking matcher: \<open>bt items s g\<close> matches the items at the beginning of \<open>s\<close>
  and gives the text that is left and the groups captured, for the first way of matching
  in the order in which \<^verbatim>\<open>re\<close> tries them: a greedy repetition takes the longest run
  first, a lazy one the shortest, an alternation its left branch. \<open>None\<close> is no match.
\<close>

type_synonym groups = "(nat \<times> pystr) list"

function bt :: "item list \<Rightarrow> pystr \<Rightarrow> groups \<Rightarrow> (pystr \<times> groups) option" where
  "bt [] s g = Some (s, g)"
| "bt (Lit l # items) s g = (if prefix l s then bt items (drop (length l) s) g else None)"
| "bt (Greedy P n # items) s g =
     first_some (\<lambda>k. bt items (drop k s) g) (rev [n ..< Suc (length (takeWhile P s))])"
| "bt (Lazy P n # items) s g =
     first_some (\<lambda>k. bt items (drop k s) g) [n ..< Suc (length (takeWhile P s))]"
| "bt (Alt a b # items) s g =
     (case bt (a @ items) s g of Some r \<Rightarrow> Some r | None \<Rightarrow> bt (b @ items) s g)"
| "bt (Group i r # items) s g = bt (r @ EndGroup i s # items) s g"
| "bt (EndGroup i s0 # items) s g = bt items s ((i, take (length s0 - length s) s0) # g)"
  by pat_completeness auto
termination
  by (relation "measure (\<lambda>(items, s, g). sum_list (map isize items))") auto

text \<open>The text of a group of a match; \<^verbatim>\<open>re.findall\<close> gives the empty string for a group
  that took no part.\<close>

definition group :: "groups \<Rightarrow> nat \<Rightarrow> pystr" where
  "group g i = (case map_of g i of Some t \<Rightarrow> t | None \<Rightarrow> [])"

text \<open>
  \<^verbatim>\<open>re.sub\<close>, \<^verbatim>\<open>re.findall\<close> and \<^verbatim>\<open>re.search\<close>: a match is looked for at each
  position from left to right; after a match that is not empty the search goes on behind
  it, so matches do not overlap. \<open>re_search\<close> gives the text of the first match.
\<close>

function re_sub :: "item list \<Rightarrow> pystr \<Rightarrow> pystr \<Rightarrow> pystr" where
  "re_sub pat repl s =
     (case bt pat s [] of
        Some (rest, g) \<Rightarrow>
          if length rest < length s then repl @ re_sub pat repl rest
          else repl @ (case s of [] \<Rightarrow> [] | c # cs \<Rightarrow> c # re_sub pat repl cs)
      | None \<Rightarrow> (case s of [] \<Rightarrow> [] | c # cs \<Rightarrow> c # re_sub pat repl cs))"
  by pat_completeness auto
termination
  by (relation "measure (\<lambda>(pat, repl, s). length s)") auto

function re_findall :: "item list \<Rightarrow> pystr \<Rightarrow> groups list" where
  "re_findall pat s =
     (case bt pat s [] of
        Some (rest, g) \<Rightarrow>
          if length rest < length s then g # re_findall pat rest
          else g # (case s of [] \<Rightarrow> [] | c # cs \<Rightarrow> re_findall pat cs)
      | None \<Rightarrow> (case s of [] \<Rightarrow> [] | c # cs \<Rightarrow> re_findall pat cs))"
  by pat_completeness auto
termination
  by (relation "measure (\<lambda>(pat, s). length s)") auto

fun re_search :: "item list \<Rightarrow> pystr \<Rightarrow> pystr option" where
  "re_search pat [] = (case bt pat [] [] of Some (rest, g) \<Rightarrow> Some [] | None \<Rightarrow> None)"
| "re_search pat (c # cs) =
     (case bt pat (c # cs) [] of
        Some (rest, g) \<Rightarrow> Some (take (length (c # cs) - length rest) (c # cs))
      | None \<Rightarrow> re_search pat cs)"

text \<open>
  The patterns of the script: \<^verbatim>\<open>//[^\n]*\<close>; \<^verbatim>\<open>/\*.*?\*/\<close>, where the dot is any
  character (\<^verbatim>\<open>re.DOTALL\<close>); the layer pattern
  \<^verbatim>\<open>(Layer_\d+|layer_\d+)\s*\{[^{}]*?bindings\s*=\s*<\s*([^>]+)\s*>\<close>; and \<^verbatim>\<open>\d+\<close>.
  In a pattern on \<^verbatim>\<open>str\<close>, \<^verbatim>\<open>\d\<close> is a decimal digit of Unicode (a character for
  which \<open>decimal U\<close> has a value) and \<^verbatim>\<open>\s\<close> is white space.
\<close>

definition line_comment :: "item list" where
  "line_comment = [Lit (str ''//''), Greedy (\<lambda>c. c \<noteq> 10) 0]"

definition block_comment :: "item list" where
  "block_comment = [Lit (str ''/*''), Lazy (\<lambda>c. True) 0, Lit (str ''*/'')]"

definition is_decimal :: "runtime \<Rightarrow> int \<Rightarrow> bool" where
  "is_decimal U c \<longleftrightarrow> decimal U c \<noteq> None"

definition layer_pattern :: "runtime \<Rightarrow> item list" where
  "layer_pattern U =
     [Group 1 [Alt [Lit (str ''Layer_''), Greedy (is_decimal U) 1]
                   [Lit (str ''layer_''), Greedy (is_decimal U) 1]],
      Greedy isspace 0, Lit (str ''{''), Lazy (\<lambda>c. c \<noteq> 123 \<and> c \<noteq> 125) 0,
      Lit (str ''bindings''), Greedy isspace 0, Lit (str ''=''), Greedy isspace 0,
      Lit (str ''<''), Greedy isspace 0, Group 2 [Greedy (\<lambda>c. c \<noteq> 62) 1],
      Greedy isspace 0, Lit (str ''>'')]"

definition digits :: "runtime \<Rightarrow> item list" where
  "digits U = [Greedy (is_decimal U) 1]"

section \<open>The layer extractor\<close>

text \<open>
  The captured text of a layer is cut into tokens: \<^verbatim>\<open>re.split(r'(?=&)', s)\<close> cuts before
  every \<^verbatim>\<open>&\<close>, as Python 3.7 and later do (a text that begins with \<^verbatim>\<open>&\<close> gives an
  empty first piece); the pieces are stripped and the empty ones dropped.
\<close>

definition replace_newlines :: "pystr \<Rightarrow> pystr" where
  "replace_newlines s = map (\<lambda>c. if c = 10 then 32 else c) s"

fun pieces :: "int \<Rightarrow> pystr \<Rightarrow> pystr list" where
  "pieces d [] = [[]]"
| "pieces d (c # cs) =
     (if cs \<noteq> [] \<and> hd cs = d then [c] # pieces d cs
      else case pieces d cs of [] \<Rightarrow> [[c]] | w # ws \<Rightarrow> (c # w) # ws)"

definition split_before :: "int \<Rightarrow> pystr \<Rightarrow> pystr list" where
  "split_before d s = (if s \<noteq> [] \<and> hd s = d then [] # pieces d s else pieces d s)"

definition tokens :: "pystr \<Rightarrow> pystr list" where
  "tokens bindings_str =
     (let raw_bindings = split_before 38 (replace_newlines bindings_str)
      in map strip (filter (\<lambda>b. strip b \<noteq> []) raw_bindings))"

text \<open>
  A dictionary keeps its keys in the order in which they were first inserted, and an
  assignment to a key that is present replaces its value in place: an association list
  with \<open>AList.update\<close>. \<open>collect\<close> is the loop over the matches.
\<close>

type_synonym layers = "(pystr \<times> pystr list) list"

fun collect :: "(pystr \<times> pystr) list \<Rightarrow> layers \<Rightarrow> layers" where
  "collect [] layers = layers"
| "collect ((layer_name, bindings_str) # matches) layers =
     (let bindings = tokens bindings_str
      in collect matches
           (if 36 \<le> length bindings then AList.update layer_name bindings layers else layers))"

text \<open>
  \<^verbatim>\<open>int(s)\<close> on a string of decimal digits: the number in base 10; a
  \<^verbatim>\<open>ValueError\<close> on any other string, and on a string with more digits than the
  limit of the interpreter, when it has one. \<open>layer_number\<close> is the sort key
  \<^verbatim>\<open>int(re.search(r'\d+', x).group())\<close>; \<^verbatim>\<open>re.search\<close> gives \<^verbatim>\<open>None\<close> for a name
  without digit, and \<^verbatim>\<open>.group()\<close> on it is an \<^verbatim>\<open>AttributeError\<close>.
\<close>

definition digit_value :: "runtime \<Rightarrow> int \<Rightarrow> int" where
  "digit_value U c = (case decimal U c of Some d \<Rightarrow> d | None \<Rightarrow> 0)"

definition py_int :: "runtime \<Rightarrow> pystr \<Rightarrow> error + int" where
  "py_int U s =
     (if s = [] \<or> \<not> list_all (is_decimal U) s then Inl ValueError
      else if (case max_str_digits U of Some m \<Rightarrow> m < length s | None \<Rightarrow> False)
        then Inl ValueError
      else Inr (foldl (\<lambda>n c. 10 * n + digit_value U c) 0 s))"

definition layer_number :: "runtime \<Rightarrow> pystr \<Rightarrow> error + int" where
  "layer_number U x =
     (case re_search (digits U) x of None \<Rightarrow> Inl AttributeError | Some m \<Rightarrow> py_int U m)"

text \<open>
  \<open>traverse\<close> applies a function that may raise to the elements of a list, in order, and
  stops at the first error. \<^verbatim>\<open>sorted(xs, key=f)\<close> computes the key of every element
  first, then sorts by the keys; the sort is stable.
\<close>

fun traverse :: "('a \<Rightarrow> error + 'b) \<Rightarrow> 'a list \<Rightarrow> error + 'b list" where
  "traverse f [] = Inr []"
| "traverse f (x # xs) =
     (case f x of
        Inl e \<Rightarrow> Inl e
      | Inr y \<Rightarrow> (case traverse f xs of Inl e \<Rightarrow> Inl e | Inr ys \<Rightarrow> Inr (y # ys)))"

definition sorted_by :: "('a \<Rightarrow> error + int) \<Rightarrow> 'a list \<Rightarrow> error + 'a list" where
  "sorted_by key xs =
     (case traverse key xs of
        Inl e \<Rightarrow> Inl e
      | Inr ks \<Rightarrow> Inr (map fst (sort_key snd (zip xs ks))))"

text \<open>The loop that copies the layers into \<open>sorted_layers\<close> in the sorted order.\<close>

fun copy_layers :: "layers \<Rightarrow> pystr list \<Rightarrow> layers \<Rightarrow> error + layers" where
  "copy_layers layers [] sorted_layers = Inr sorted_layers"
| "copy_layers layers (name # names) sorted_layers =
     (case map_of layers name of
        None \<Rightarrow> Inl KeyError
      | Some bindings \<Rightarrow> copy_layers layers names (AList.update name bindings sorted_layers))"

text \<open>The two substitutions that remove the comments, and the extractor.\<close>

definition strip_comments :: "pystr \<Rightarrow> pystr" where
  "strip_comments content = re_sub block_comment [] (re_sub line_comment [] content)"

definition parse_keymap :: "runtime \<Rightarrow> pystr \<Rightarrow> error + layers" where
  "parse_keymap U content =
     (let content_no_comments = strip_comments content;
          matches = map (\<lambda>g. (group g 1, group g 2))
                      (re_findall (layer_pattern U) content_no_comments);
          layers = collect matches []
      in case sorted_by (layer_number U) (map fst layers) of
           Inl e \<Rightarrow> Inl e
         | Inr names \<Rightarrow> copy_layers layers names [])"

section \<open>The layout renderer\<close>

text \<open>
  \<open>bind_err\<close> chains steps that may raise. \<open>fmt\<close> is the inner function of the renderer,
  width 7. The dividers are the literals of the script, by code points: \<open>vbar\<close> is the
  vertical bar U+2502, \<open>hbar\<close> seven horizontal bars U+2500, \<open>gap\<close> the seven spaces
  between the halves, \<open>indent\<close> the 24 spaces before the thumb keys. \<open>cells keys lo hi\<close>
  joins \<^verbatim>\<open>fmt(keys[i])\<close> for \<^verbatim>\<open>i\<close> in \<^verbatim>\<open>range(lo, hi)\<close>, with the
  vertical bar as separator.
\<close>

definition bind_err :: "error + 'a \<Rightarrow> ('a \<Rightarrow> error + 'b) \<Rightarrow> error + 'b" where
  "bind_err m f = (case m of Inl e \<Rightarrow> Inl e | Inr x \<Rightarrow> f x)"

definition fmt :: "pystr \<Rightarrow> pystr" where
  "fmt key = center key 7"

definition vbar :: pystr where
  "vbar = [0x2502]"

definition hbar :: pystr where
  "hbar = replicate 7 0x2500"

definition gap :: pystr where
  "gap = replicate 7 32"

definition indent :: pystr where
  "indent = replicate 24 32"

definition line_top :: pystr where
  "line_top =
     [0x250C] @ hbar @ [0x252C] @ hbar @ [0x252C] @ hbar @ [0x252C] @ hbar @ [0x252C] @ hbar @
     [0x252C] @ hbar @ [0x2510] @ gap @ [0x250C] @ hbar @ [0x252C] @ hbar @ [0x252C] @ hbar @
     [0x252C] @ hbar @ [0x252C] @ hbar @ [0x252C] @ hbar @ [0x2510]"

definition line_mid :: pystr where
  "line_mid =
     [0x251C] @ hbar @ [0x253C] @ hbar @ [0x253C] @ hbar @ [0x253C] @ hbar @ [0x253C] @ hbar @
     [0x253C] @ hbar @ [0x2524] @ gap @ [0x251C] @ hbar @ [0x253C] @ hbar @ [0x253C] @ hbar @
     [0x253C] @ hbar @ [0x253C] @ hbar @ [0x253C] @ hbar @ [0x2524]"

definition line_bottom :: pystr where
  "line_bottom =
     [0x2514] @ hbar @ [0x2534] @ hbar @ [0x2534] @ hbar @ [0x253C] @ hbar @ [0x253C] @ hbar @
     [0x253C] @ hbar @ [0x2524] @ gap @ [0x251C] @ hbar @ [0x253C] @ hbar @ [0x253C] @ hbar @
     [0x253C] @ hbar @ [0x2534] @ hbar @ [0x2534] @ hbar @ [0x2518]"

definition line_thumb :: pystr where
  "line_thumb =
     indent @ [0x2514] @ hbar @ [0x2534] @ hbar @ [0x2534] @ hbar @ [0x2518] @ gap @
     [0x2514] @ hbar @ [0x2534] @ hbar @ [0x2534] @ hbar @ [0x2518]"

definition cells :: "pystr list \<Rightarrow> nat \<Rightarrow> nat \<Rightarrow> error + pystr" where
  "cells keys lo hi =
     bind_err (traverse (getitem keys) [lo ..< hi]) (\<lambda>ks. Inr (join vbar (map fmt ks)))"

definition format_corne_layer :: "runtime \<Rightarrow> pystr list \<Rightarrow> pystr \<Rightarrow> error + pystr" where
  "format_corne_layer U bindings layer_name =
     bind_err (traverse (parse_binding U) bindings) (\<lambda>decoded.
     let keys = (if length decoded < 42
                 then decoded @ replicate (42 - length decoded) [] else decoded) in
     bind_err (cells keys 0 6) (\<lambda>row1_left.
     bind_err (cells keys 6 12) (\<lambda>row1_right.
     bind_err (cells keys 12 18) (\<lambda>row2_left.
     bind_err (cells keys 18 24) (\<lambda>row2_right.
     bind_err (cells keys 24 30) (\<lambda>row3_left.
     bind_err (cells keys 30 36) (\<lambda>row3_right.
     bind_err (cells keys 36 39) (\<lambda>thumb_left.
     bind_err (cells keys 39 42) (\<lambda>thumb_right.
     Inr (join [10]
       [str ''### '' @ layer_name,
        str ''```'',
        line_top,
        vbar @ row1_left @ vbar @ gap @ vbar @ row1_right @ vbar,
        line_mid,
        vbar @ row2_left @ vbar @ gap @ vbar @ row2_right @ vbar,
        line_mid,
        vbar @ row3_left @ vbar @ gap @ vbar @ row3_right @ vbar,
        line_bottom,
        indent @ vbar @ thumb_left @ vbar @ gap @ vbar @ thumb_right @ vbar,
        line_thumb,
        str ''```'']))))))))))"

section \<open>Files and the command line\<close>

text \<open>
  What \<^verbatim>\<open>pathlib\<close> finds at a path, as far as the script can tell:
  \<^item> \<open>Absent\<close>: nothing; \<^verbatim>\<open>exists()\<close> is false.
  \<^item> \<open>Regular wr stored\<close>: a file whose bytes decode, in the default encoding, to the
    characters \<open>stored\<close>, with the line ends as they are stored (\<^verbatim>\<open>\r\n\<close>, \<^verbatim>\<open>\r\<close> or
    \<^verbatim>\<open>\n\<close>); \<open>wr\<close> is the error that opening the file for writing raises, if any
    (a file without write permission, a read-only file system).
  \<^item> \<open>Unreadable e\<close>: something that exists and that \<^verbatim>\<open>read_text()\<close> cannot read: it
    raises \<open>e\<close> (a directory, bytes that do not decode, no read permission).
  \<^item> \<open>Inaccessible e\<close>: a path on which \<^verbatim>\<open>exists()\<close> itself raises \<open>e\<close> (a name that is
    too long, for one).
  The script runs alone: no other process changes the files between its read and its
  write. Errors of the device while writing (a full disk) are not modelled.
\<close>

datatype entry =
    Absent
  | Regular "error option" pystr
  | Unreadable error
  | Inaccessible error

type_synonym files = "pystr \<Rightarrow> entry"

text \<open>\<^verbatim>\<open>Path(path).exists()\<close>.\<close>

definition path_exists :: "files \<Rightarrow> pystr \<Rightarrow> error + bool" where
  "path_exists fs path =
     (case fs path of
        Absent \<Rightarrow> Inr False
      | Regular wr stored \<Rightarrow> Inr True
      | Unreadable e \<Rightarrow> Inr True
      | Inaccessible e \<Rightarrow> Inl e)"

text \<open>
  Text files are read with universal newlines: \<^verbatim>\<open>\r\n\<close> and a lone \<^verbatim>\<open>\r\<close> both
  arrive as \<^verbatim>\<open>\n\<close>.
\<close>

fun universal_newlines :: "pystr \<Rightarrow> pystr" where
  "universal_newlines [] = []"
| "universal_newlines [c] = [if c = 13 then 10 else c]"
| "universal_newlines (c # d # cs) =
     (if c = 13 \<and> d = 10 then 10 # universal_newlines cs
      else if c = 13 then 10 # universal_newlines (d # cs)
      else c # universal_newlines (d # cs))"

text \<open>\<^verbatim>\<open>Path(path).read_text()\<close>.\<close>

definition read_text :: "files \<Rightarrow> pystr \<Rightarrow> error + pystr" where
  "read_text fs path =
     (case fs path of
        Absent \<Rightarrow> Inl FileNotFoundError
      | Regular wr stored \<Rightarrow> Inr (universal_newlines stored)
      | Unreadable e \<Rightarrow> Inl e
      | Inaccessible e \<Rightarrow> Inl e)"

text \<open>
  On writing, each \<^verbatim>\<open>\n\<close> becomes the line separator of the platform: itself, or
  \<^verbatim>\<open>\r\n\<close> where \<open>crlf\<close> holds.
\<close>

definition write_newlines :: "runtime \<Rightarrow> pystr \<Rightarrow> pystr" where
  "write_newlines U text =
     concat (map (\<lambda>c. if c = 10 \<and> crlf U then [13, 10] else [c]) text)"

text \<open>
  \<^verbatim>\<open>Path(path).write_text(text)\<close>. The file is opened for writing, which empties it, and
  then the text is encoded and written: when opening fails nothing changes; when the text
  cannot be encoded the file stays empty. The result is the new file system and the error
  raised, if any. At a path that holds no file yet the file is created.
\<close>

definition write_text :: "runtime \<Rightarrow> files \<Rightarrow> pystr \<Rightarrow> pystr \<Rightarrow> files \<times> error option" where
  "write_text U fs path text =
     (let written = (if encodable U text
                     then (fs(path := Regular None (write_newlines U text)), None)
                     else (fs(path := Regular None []), Some UnicodeEncodeError))
      in case fs path of
           Absent \<Rightarrow> written
         | Regular None stored \<Rightarrow> written
         | Regular (Some e) stored \<Rightarrow> (fs, Some e)
         | Unreadable e \<Rightarrow> (fs, Some e)
         | Inaccessible e \<Rightarrow> (fs, Some e))"

text \<open>
  \<^verbatim>\<open>print(text)\<close>: the line is added to standard output, unless it cannot be encoded
  there.
\<close>

definition print_line :: "runtime \<Rightarrow> pystr \<Rightarrow> error + pystr list" where
  "print_line U text = (if printable U text then Inr [text] else Inl UnicodeEncodeError)"

definition legend :: pystr where
  "legend = str ''**Legend:** `'' @ [0x25BD] @
     str ''` = Transparent (uses key from lower layer), `L#` = Momentary layer switch''"

text \<open>\<^verbatim>\<open>generate_markdown\<close>.\<close>

definition generate_markdown :: "runtime \<Rightarrow> files \<Rightarrow> pystr \<Rightarrow> error + pystr" where
  "generate_markdown U fs keymap_path =
     bind_err (read_text fs keymap_path) (\<lambda>content.
     bind_err (parse_keymap U content) (\<lambda>layers.
     bind_err (traverse (\<lambda>(layer_name, bindings). format_corne_layer U bindings layer_name)
                 layers) (\<lambda>blocks.
     Inr (join [10]
       ([str ''## Keymap'',
         [],
         str ''*Auto-generated from [`'' @ path_name U keymap_path @ str ''`](config/'' @
           path_name U keymap_path @ str '')*'',
         [],
         legend,
         []] @ concat (map (\<lambda>block. [block, []]) blocks))))))"

text \<open>\<^verbatim>\<open>sub in s\<close>.\<close>

definition contains :: "pystr \<Rightarrow> pystr \<Rightarrow> bool" where
  "contains s sub = sublist sub s"

text \<open>
  \<^verbatim>\<open>s.split(sep)\<close> for a separator that is not empty: the text between the occurrences of
  \<open>sep\<close>, found from left to right without overlap.
\<close>

function split_sep :: "pystr \<Rightarrow> pystr \<Rightarrow> pystr list" where
  "split_sep sep s =
     (if sep \<noteq> [] \<and> prefix sep s then [] # split_sep sep (drop (length sep) s)
      else case s of
             [] \<Rightarrow> [[]]
           | c # cs \<Rightarrow> (case split_sep sep cs of [] \<Rightarrow> [[c]] | w # ws \<Rightarrow> (c # w) # ws))"
  by pat_completeness auto
termination
  by (relation "measure (\<lambda>(sep, s). length s)") (auto simp: prefix_def)

declare split_sep.simps [simp del]

definition start_marker :: pystr where
  "start_marker = str ''<!-- KEYMAP_START -->''"

definition end_marker :: pystr where
  "end_marker = str ''<!-- KEYMAP_END -->''"

definition warning :: "pystr \<Rightarrow> pystr" where
  "warning readme_path = str ''Warning: Could not find markers in '' @ readme_path"

text \<open>
  \<^verbatim>\<open>update_readme\<close>: the new file system, the lines printed, and the exception raised
  or the normal return. An exception of \<^verbatim>\<open>exists()\<close>, \<^verbatim>\<open>read_text()\<close>,
  \<^verbatim>\<open>write_text()\<close> or \<^verbatim>\<open>print\<close> leaves the function at once.
\<close>

definition new_text :: "pystr \<Rightarrow> pystr \<Rightarrow> error + pystr" where
  "new_text content keymap_content =
     bind_err (getitem (split_sep start_marker content) 0) (\<lambda>before.
     bind_err (getitem (split_sep end_marker content) 1) (\<lambda>after.
     Inr (before @ start_marker @ [10] @ keymap_content @ [10] @ end_marker @ after)))"

definition print_warning :: "runtime \<Rightarrow> files \<Rightarrow> pystr \<Rightarrow> files \<times> pystr list \<times> (error + unit)" where
  "print_warning U fs readme_path =
     (case print_line U (warning readme_path) of
        Inl e \<Rightarrow> (fs, [], Inl e)
      | Inr out \<Rightarrow> (fs, out, Inr ()))"

definition update_readme ::
  "runtime \<Rightarrow> files \<Rightarrow> pystr \<Rightarrow> pystr \<Rightarrow> files \<times> pystr list \<times> (error + unit)" where
  "update_readme U fs readme_path keymap_content =
     (case path_exists fs readme_path of
        Inl e \<Rightarrow> (fs, [], Inl e)
      | Inr False \<Rightarrow> print_warning U fs readme_path
      | Inr True \<Rightarrow>
          (case read_text fs readme_path of
             Inl e \<Rightarrow> (fs, [], Inl e)
           | Inr content \<Rightarrow>
               if contains content start_marker \<and> contains content end_marker then
                 (case new_text content keymap_content of
                    Inl e \<Rightarrow> (fs, [], Inl e)
                  | Inr new_content \<Rightarrow>
                      (case write_text U fs readme_path new_content of
                         (fs', Some e) \<Rightarrow> (fs', [], Inl e)
                       | (fs', None) \<Rightarrow> (fs', [], Inr ())))
               else print_warning U fs readme_path))"

text \<open>
  How a run ends: it returns from the last statement, leaves through \<^verbatim>\<open>sys.exit\<close>, or
  dies of an exception nobody catches, which the interpreter reports with exit status 1.
\<close>

datatype outcome = Finished | SystemExit int | Uncaught error

fun exit_status :: "outcome \<Rightarrow> int" where
  "exit_status Finished = 0"
| "exit_status (SystemExit n) = n"
| "exit_status (Uncaught e) = 1"

definition usage :: pystr where
  "usage = str ''Usage: generate_keymap.py <keymap_file> [readme_file]''"

text \<open>
  The script's main block, on the argument vector and the file system: the new file
  system, the lines printed and the way the run ends.
\<close>

definition main :: "runtime \<Rightarrow> pystr list \<Rightarrow> files \<Rightarrow> files \<times> pystr list \<times> outcome" where
  "main U argv fs =
     (if length argv < 2 then
        (case print_line U usage of
           Inl e \<Rightarrow> (fs, [], Uncaught e)
         | Inr out \<Rightarrow> (fs, out, SystemExit 1))
      else case bind_err (getitem argv 1) (generate_markdown U fs) of
             Inl e \<Rightarrow> (fs, [], Uncaught e)
           | Inr markdown \<Rightarrow>
               if 3 \<le> length argv then
                 (case getitem argv 2 of
                    Inl e \<Rightarrow> (fs, [], Uncaught e)
                  | Inr readme \<Rightarrow>
                      (case update_readme U fs readme markdown of
                         (fs', out, Inl e) \<Rightarrow> (fs', out, Uncaught e)
                       | (fs', out, Inr u) \<Rightarrow>
                           (case print_line U (str ''Updated '' @ readme) of
                              Inl e \<Rightarrow> (fs', out, Uncaught e)
                            | Inr line \<Rightarrow> (fs', out @ line, Finished))))
               else
                 (case print_line U markdown of
                    Inl e \<Rightarrow> (fs, [], Uncaught e)
                  | Inr out \<Rightarrow> (fs, out, Finished)))"

text \<open>
  Of the text after the first end marker the splice keeps what \<^verbatim>\<open>split(end_marker)[1]\<close>
  holds: the text up to the next end marker, or all of it when there is none.
\<close>

definition up_to_end :: "pystr \<Rightarrow> pystr" where
  "up_to_end post = (case split_sep end_marker post of [] \<Rightarrow> [] | a # rest \<Rightarrow> a)"

text \<open>
  Sample data for concrete runs: a file system that holds an empty keymap and a
  destination file with the given stored text, and the markdown generated from that
  keymap.
\<close>

definition keymap_only :: files where
  "keymap_only = (\<lambda>p. Absent)(str ''corne.keymap'' := Regular None [])"

definition sample_files :: "pystr \<Rightarrow> files" where
  "sample_files readme = keymap_only(str ''README.md'' := Regular None readme)"

definition sample_markdown :: pystr where
  "sample_markdown =
     join [10] [str ''## Keymap'', [],
       str ''*Auto-generated from [`corne.keymap`](config/corne.keymap)*'', [], legend, []]"

section \<open>Notions of the specification\<close>

text \<open>
  For stating what the renderer does: the label of a token (the decoder's result), the
  label at a position of a layer (empty beyond the last token), and the list of labels
  filled up to 42 as \<open>format_corne_layer\<close> does it.
\<close>

definition label_of :: "runtime \<Rightarrow> pystr \<Rightarrow> pystr" where
  "label_of U b = (case parse_binding U b of Inl e \<Rightarrow> [] | Inr l \<Rightarrow> l)"

definition key_at :: "runtime \<Rightarrow> pystr list \<Rightarrow> nat \<Rightarrow> pystr" where
  "key_at U bindings i = (if i < length bindings then label_of U (bindings ! i) else [])"

definition padded :: "pystr list \<Rightarrow> pystr list" where
  "padded decoded =
     (if length decoded < 42 then decoded @ replicate (42 - length decoded) [] else decoded)"

text \<open>
  For stating what the extractor does: the pairs of a layer identifier and a captured text
  that the pattern finds in the text without its comments (the list \<open>matches\<close> of
  \<open>parse_keymap\<close>); a pair is retained when its captured text has at least 36 tokens; a
  layer identifier is \<^verbatim>\<open>Layer_\<close> or \<^verbatim>\<open>layer_\<close> and a non-empty run of decimal digits;
  a brace is one of the two characters \<^verbatim>\<open>{\<close> and \<^verbatim>\<open>}\<close>.
\<close>

definition candidates :: "runtime \<Rightarrow> pystr \<Rightarrow> (pystr \<times> pystr) list" where
  "candidates U content =
     map (\<lambda>g. (group g 1, group g 2)) (re_findall (layer_pattern U) (strip_comments content))"


definition layer_identifier :: "runtime \<Rightarrow> pystr \<Rightarrow> bool" where
  "layer_identifier U name \<longleftrightarrow>
     (prefix (str ''Layer_'') name \<or> prefix (str ''layer_'') name) \<and>
     drop 6 name \<noteq> [] \<and> list_all (is_decimal U) (drop 6 name)"

definition brace :: "int \<Rightarrow> bool" where
  "brace c \<longleftrightarrow> c = 123 \<or> c = 125"




text \<open>
  Two notions of the specification, for stating its claims: a number is a non-empty run of
  the digits 0 to 9; \<open>single_amp\<close> removes one leading \<^verbatim>\<open>&\<close>, if there is one.
\<close>

definition number :: "pystr \<Rightarrow> bool" where
  "number N \<longleftrightarrow> N \<noteq> [] \<and> list_all (\<lambda>c. 48 \<le> c \<and> c \<le> 57) N"

fun single_amp :: "pystr \<Rightarrow> pystr" where
  "single_amp [] = []"
| "single_amp (c # cs) = (if c = 38 then cs else c # cs)"

text \<open>
  The capitalisation the specification describes: the first alphabetic character in upper
  case, every other character in lower case.
\<close>

definition ascii_alpha :: "int \<Rightarrow> bool" where
  "ascii_alpha c \<longleftrightarrow> (65 \<le> c \<and> c \<le> 90) \<or> (97 \<le> c \<and> c \<le> 122)"

fun capitalize_first_alpha :: "pystr \<Rightarrow> pystr" where
  "capitalize_first_alpha [] = []"
| "capitalize_first_alpha (c # cs) =
     (if ascii_alpha c then ascii_upper c # map ascii_lower cs
      else c # capitalize_first_alpha cs)"

section \<open>Properties of the decoder\<close>

subsection \<open>Stripping and splitting\<close>

lemma strip_last: "strip s \<noteq> [] \<Longrightarrow> \<not> isspace (last (strip s))"
proof -
  assume a: "strip s \<noteq> []"
  let ?t = "dropWhile isspace (rev (dropWhile isspace s))"
  from a have ne: "?t \<noteq> []" by (simp add: strip_def)
  then have "\<not> isspace (hd ?t)" by (rule hd_dropWhile)
  moreover have "last (strip s) = hd ?t" using ne by (simp add: strip_def last_rev)
  ultimately show ?thesis by simp
qed

lemma last_dropWhile: "dropWhile P xs \<noteq> [] \<Longrightarrow> last (dropWhile P xs) = last xs"
  by (induction xs) (auto split: if_splits)

lemma binding_last:
  "lstrip (strip b) cs \<noteq> [] \<Longrightarrow> \<not> isspace (last (lstrip (strip b) cs))"
  unfolding lstrip_def
  by (metis dropWhile.simps(1) last_dropWhile strip_last)

lemma split_ws_Nil [simp]: "split_ws [] = []"
  by (simp add: split_ws.simps)

lemma split_ws_space: "isspace c \<Longrightarrow> split_ws (c # s) = split_ws s"
  by (simp add: split_ws.simps)

lemma split_ws_word:
  assumes "w \<noteq> []" "\<forall>c\<in>set w. \<not> isspace c" "rest = [] \<or> isspace (hd rest)"
  shows "split_ws (w @ rest) = w # split_ws rest"
proof (cases w)
  case Nil
  with assms(1) show ?thesis by simp
next
  case (Cons c cs)
  have d: "dropWhile isspace (c # cs @ rest) = c # cs @ rest"
    using assms(2) Cons by simp
  have t: "takeWhile (\<lambda>x. \<not> isspace x) (cs @ rest) = cs"
    using assms(2,3) Cons by (cases rest) (auto simp: takeWhile_append2 takeWhile_eq_all_conv)
  have r: "dropWhile (\<lambda>x. \<not> isspace x) (cs @ rest) = rest"
    using assms(2,3) Cons by (cases rest) (auto simp: dropWhile_append2)
  have "split_ws (c # cs @ rest) = (c # cs) # split_ws rest"
    by (subst split_ws.simps) (simp only: d t r list.case)
  then show ?thesis using Cons by simp
qed

lemma split_ws_nonempty: "\<exists>c\<in>set s. \<not> isspace c \<Longrightarrow> split_ws s \<noteq> []"
proof -
  assume "\<exists>c\<in>set s. \<not> isspace c"
  then have "dropWhile isspace s \<noteq> []" by (simp add: dropWhile_eq_Nil_conv)
  then show ?thesis by (subst split_ws.simps) (auto split: list.splits)
qed

lemma isspace_32 [simp]: "isspace 32"
  by (simp add: isspace_def)

lemma prefixes:
  "str ''mo '' = [109, 111, 32]" "str ''to '' = [116, 111, 32]"
  "str ''lt '' = [108, 116, 32]" "str ''kp '' = [107, 112, 32]"
  by (simp_all add: str_def)

text \<open>
  A string that starts with two characters and a space and does not end in white space has
  a second field.
\<close>

lemma second_field:
  assumes p: "startswith r [a, b, 32]" and a: "\<not> isspace a" and b: "\<not> isspace b"
    and l: "r \<noteq> [] \<Longrightarrow> \<not> isspace (last r)"
  shows "2 \<le> length (split_ws r)"
proof -
  from p obtain t where r: "r = [a, b, 32] @ t" by (auto simp: startswith_def prefix_def)
  have "t \<noteq> []" using l r by auto
  then have "\<not> isspace (last t)" using l r by simp
  then have ne: "split_ws t \<noteq> []"
    using \<open>t \<noteq> []\<close> by (intro split_ws_nonempty) (metis last_in_set)
  have "split_ws r = [a, b] # split_ws (32 # t)"
    using split_ws_word [of "[a, b]" "32 # t"] a b r by simp
  also have "split_ws (32 # t) = split_ws t" by (simp add: split_ws_space)
  finally show ?thesis using ne by (cases "split_ws t") auto
qed

subsection \<open>The decoder never raises\<close>

lemma parse_binding_returns: "\<exists>label. parse_binding U b = Inr label"
proof -
  define r where "r = lstrip (strip b) (str ''&'')"
  have l: "r \<noteq> [] \<Longrightarrow> \<not> isspace (last r)" unfolding r_def by (rule binding_last)
  have two: "2 \<le> length (split_ws r)"
    if "startswith r (str ''mo '') \<or> startswith r (str ''to '') \<or> startswith r (str ''lt '')"
    using that l by (auto simp: prefixes isspace_def intro!: second_field)
  then have idx: "getitem (split_ws r) 1 = Inr (split_ws r ! 1)"
    if "startswith r (str ''mo '') \<or> startswith r (str ''to '') \<or> startswith r (str ''lt '')"
    using that by (simp add: getitem_def)
  show ?thesis
    unfolding parse_binding_def r_def [symmetric] Let_def
    using idx by (simp split: option.splits)
qed

text \<open>
  Claim C10. \<open>parse_binding\<close> returns a label for every input string and never raises.
  The only access that could fail is the index 1 into the fields of the split; since the
  token was stripped of white space first, a token that starts with \<^verbatim>\<open>mo \<close>,
  \<^verbatim>\<open>to \<close> or \<^verbatim>\<open>lt \<close> has at least two fields.
\<close>

theorem parse_binding_total:
  "(\<exists>label. parse_binding U b = Inr label) \<and>
   (let binding = lstrip (strip b) (str ''&'') in
      startswith binding (str ''mo '') \<or> startswith binding (str ''to '') \<or>
      startswith binding (str ''lt '') \<longrightarrow> 2 \<le> length (split_ws binding))"
proof -
  define r where "r = lstrip (strip b) (str ''&'')"
  have l: "r \<noteq> [] \<Longrightarrow> \<not> isspace (last r)" unfolding r_def by (rule binding_last)
  have two: "2 \<le> length (split_ws r)"
    if "startswith r (str ''mo '') \<or> startswith r (str ''to '') \<or> startswith r (str ''lt '')"
    using that l by (auto simp: prefixes isspace_def intro!: second_field)
  then have idx: "getitem (split_ws r) 1 = Inr (split_ws r ! 1)"
    if "startswith r (str ''mo '') \<or> startswith r (str ''to '') \<or> startswith r (str ''lt '')"
    using that by (simp add: getitem_def)
  have "\<exists>label. parse_binding U b = Inr label"
    unfolding parse_binding_def r_def [symmetric] Let_def
    using idx by (simp split: option.splits)
  then show ?thesis using two unfolding r_def [symmetric] Let_def by blast
qed

theorem parse_binding_total_witness:
  "parse_binding ascii_runtime (str ''&mo 1'') = Inr (str ''L1'') \<and>
   startswith (lstrip (strip (str ''&mo 1'')) (str ''&'')) (str ''mo '') \<and>
   2 \<le> length (split_ws (lstrip (strip (str ''&mo 1'')) (str ''&'')))"
proof -
  have s: "startswith (lstrip (strip (str ''&mo 1'')) (str ''&'')) (str ''mo '')"
    by code_simp
  have "2 \<le> length (split_ws (lstrip (strip (str ''&mo 1'')) (str ''&'')))"
    using parse_binding_total [of ascii_runtime "str ''&mo 1''"] s by (simp add: Let_def)
  moreover have "parse_binding ascii_runtime (str ''&mo 1'') = Inr (str ''L1'')"
    by code_simp
  ultimately show ?thesis using s by simp
qed

subsection \<open>Table entries and layer switches\<close>

lemma KEY_DISPLAY_distinct: "distinct (map fst KEY_DISPLAY)"
  by code_simp

lemma table_no_layer_prefix:
  "list_all (\<lambda>(k, v). \<not> startswith k (str ''mo '') \<and> \<not> startswith k (str ''to '') \<and>
      \<not> startswith k (str ''lt '')) KEY_DISPLAY"
  by code_simp

lemma table_key_no_prefix:
  assumes "map_of KEY_DISPLAY k = Some v"
  shows "\<not> startswith k (str ''mo '') \<and> \<not> startswith k (str ''to '') \<and> \<not> startswith k (str ''lt '')"
proof -
  from assms have "(k, v) \<in> set KEY_DISPLAY" by (rule map_of_SomeD)
  with table_no_layer_prefix show ?thesis by (auto simp: list_all_iff)
qed

lemma number_no_space: "number N \<Longrightarrow> \<forall>c\<in>set N. \<not> isspace c"
  by (auto simp: number_def list_all_iff isspace_def)

lemma layer_field:
  assumes "r = [a, b, 32] @ N @ rest" "\<not> isspace a" "\<not> isspace b" "number N"
    "rest = [] \<or> isspace (hd rest)"
  shows "getitem (split_ws r) 1 = Inr N"
proof -
  have "split_ws r = [a, b] # split_ws (32 # N @ rest)"
    using split_ws_word [of "[a, b]" "32 # N @ rest"] assms by simp
  also have "split_ws (32 # N @ rest) = split_ws (N @ rest)" by (simp add: split_ws_space)
  also have "\<dots> = N # split_ws rest"
    using assms(4,5) number_no_space by (intro split_ws_word) (auto simp: number_def)
  finally show ?thesis by (simp add: getitem_def)
qed

text \<open>
  Claim C1. A token whose stripped form (white space stripped, leading \<^verbatim>\<open>&\<close> removed) is
  a key of \<open>KEY_DISPLAY\<close> is decoded to the label the table gives for it. A token whose
  stripped form is \<^verbatim>\<open>mo N\<close>, \<^verbatim>\<open>to N\<close> or \<^verbatim>\<open>lt N\<close>, for a number \<open>N\<close> that ends
  the token or is followed by white space and more text (as in \<^verbatim>\<open>lt N X\<close>), is decoded
  to \<^verbatim>\<open>L\<close>, \<^verbatim>\<open>TO\<close> or \<^verbatim>\<open>LT\<close> followed by \<open>N\<close>. The second part asks nothing of
  the table: the prefixes are tested first.
\<close>

theorem parse_binding_table_and_layers:
  "(map_of KEY_DISPLAY (lstrip (strip b) (str ''&'')) = Some label \<longrightarrow>
      parse_binding U b = Inr label) \<and>
   (number N \<and> (rest = [] \<or> isspace (hd rest)) \<longrightarrow>
      (lstrip (strip b) (str ''&'') = str ''mo '' @ N @ rest \<longrightarrow>
         parse_binding U b = Inr (str ''L'' @ N)) \<and>
      (lstrip (strip b) (str ''&'') = str ''to '' @ N @ rest \<longrightarrow>
         parse_binding U b = Inr (str ''TO'' @ N)) \<and>
      (lstrip (strip b) (str ''&'') = str ''lt '' @ N @ rest \<longrightarrow>
         parse_binding U b = Inr (str ''LT'' @ N)))"
proof -
  define r where "r = lstrip (strip b) (str ''&'')"
  have tab: "parse_binding U b = Inr label" if "map_of KEY_DISPLAY r = Some label"
    using table_key_no_prefix [OF that] that
    unfolding parse_binding_def r_def [symmetric] Let_def by simp
  have mo: "parse_binding U b = Inr (str ''L'' @ N)"
    if "number N" "rest = [] \<or> isspace (hd rest)" "r = str ''mo '' @ N @ rest"
  proof -
    have "getitem (split_ws r) 1 = Inr N"
      using that by (intro layer_field [of r 109 111 N rest]) (auto simp: prefixes isspace_def)
    moreover have "startswith r (str ''mo '')" using that by (simp add: startswith_def)
    ultimately show ?thesis
      unfolding parse_binding_def r_def [symmetric] Let_def by simp
  qed
  have to: "parse_binding U b = Inr (str ''TO'' @ N)"
    if "number N" "rest = [] \<or> isspace (hd rest)" "r = str ''to '' @ N @ rest"
  proof -
    have "getitem (split_ws r) 1 = Inr N"
      using that by (intro layer_field [of r 116 111 N rest]) (auto simp: prefixes isspace_def)
    moreover have "startswith r (str ''to '')" using that by (simp add: startswith_def)
    moreover have "\<not> startswith r (str ''mo '')"
      using that by (simp add: startswith_def prefixes)
    ultimately show ?thesis
      unfolding parse_binding_def r_def [symmetric] Let_def by simp
  qed
  have lt: "parse_binding U b = Inr (str ''LT'' @ N)"
    if "number N" "rest = [] \<or> isspace (hd rest)" "r = str ''lt '' @ N @ rest"
  proof -
    have "getitem (split_ws r) 1 = Inr N"
      using that by (intro layer_field [of r 108 116 N rest]) (auto simp: prefixes isspace_def)
    moreover have "startswith r (str ''lt '')" using that by (simp add: startswith_def)
    moreover have "\<not> startswith r (str ''mo '')" "\<not> startswith r (str ''to '')"
      using that by (simp_all add: startswith_def prefixes)
    ultimately show ?thesis
      unfolding parse_binding_def r_def [symmetric] Let_def by simp
  qed
  show ?thesis using tab mo to lt unfolding r_def by blast
qed

theorem parse_binding_table_and_layers_witness:
  "map_of KEY_DISPLAY (lstrip (strip (str ''&kp A'')) (str ''&'')) = Some (str ''A'') \<and>
   parse_binding ascii_runtime (str ''&kp A'') = Inr (str ''A'') \<and>
   map_of KEY_DISPLAY (lstrip (strip (str '' &bt BT_SEL 2'')) (str ''&'')) = Some (str ''BT 2'') \<and>
   parse_binding ascii_runtime (str '' &bt BT_SEL 2'') = Inr (str ''BT 2'') \<and>
   parse_binding ascii_runtime (str ''&trans'') = Inr [0x25BD] \<and>
   parse_binding ascii_runtime (str ''&none'') = Inr [0x2715] \<and>
   number (str ''3'') \<and> lstrip (strip (str ''&mo 3'')) (str ''&'') = str ''mo '' @ str ''3'' @ [] \<and>
   parse_binding ascii_runtime (str ''&mo 3'') = Inr (str ''L3'') \<and>
   number (str ''0'') \<and> lstrip (strip (str ''&to 0'')) (str ''&'') = str ''to '' @ str ''0'' @ [] \<and>
   parse_binding ascii_runtime (str ''&to 0'') = Inr (str ''TO0'') \<and>
   number (str ''2'') \<and> isspace (hd (str '' SPACE'')) \<and>
   lstrip (strip (str ''&lt 2 SPACE'')) (str ''&'') = str ''lt '' @ str ''2'' @ str '' SPACE'' \<and>
   parse_binding ascii_runtime (str ''&lt 2 SPACE'') = Inr (str ''LT2'')"
proof -
  have k1: "map_of KEY_DISPLAY (lstrip (strip (str ''&kp A'')) (str ''&'')) = Some (str ''A'')"
    by code_simp
  have k2: "map_of KEY_DISPLAY (lstrip (strip (str '' &bt BT_SEL 2'')) (str ''&'')) = Some (str ''BT 2'')"
    by code_simp
  have k3: "map_of KEY_DISPLAY (lstrip (strip (str ''&trans'')) (str ''&'')) = Some [0x25BD]"
    by code_simp
  have k4: "map_of KEY_DISPLAY (lstrip (strip (str ''&none'')) (str ''&'')) = Some [0x2715]"
    by code_simp
  have n: "number (str ''3'')" "number (str ''0'')" "number (str ''2'')"
    "isspace (hd (str '' SPACE''))"
    by code_simp+
  have m: "lstrip (strip (str ''&mo 3'')) (str ''&'') = str ''mo '' @ str ''3'' @ []"
    by code_simp
  have t: "lstrip (strip (str ''&to 0'')) (str ''&'') = str ''to '' @ str ''0'' @ []"
    by code_simp
  have l: "lstrip (strip (str ''&lt 2 SPACE'')) (str ''&'') = str ''lt '' @ str ''2'' @ str '' SPACE''"
    by code_simp
  note T = parse_binding_table_and_layers
  have "parse_binding ascii_runtime (str ''&kp A'') = Inr (str ''A'')"
    using T [of "str ''&kp A''" "str ''A''" ascii_runtime] k1 by blast
  moreover have "parse_binding ascii_runtime (str '' &bt BT_SEL 2'') = Inr (str ''BT 2'')"
    using T [of "str '' &bt BT_SEL 2''" "str ''BT 2''" ascii_runtime] k2 by blast
  moreover have "parse_binding ascii_runtime (str ''&trans'') = Inr [0x25BD]"
    using T [of "str ''&trans''" "[0x25BD]" ascii_runtime] k3 by blast
  moreover have "parse_binding ascii_runtime (str ''&none'') = Inr [0x2715]"
    using T [of "str ''&none''" "[0x2715]" ascii_runtime] k4 by blast
  moreover have "parse_binding ascii_runtime (str ''&mo 3'') = Inr (str ''L'' @ str ''3'')"
    using T [of "str ''&mo 3''" _ ascii_runtime "str ''3''" "[]"] n m by blast
  moreover have "parse_binding ascii_runtime (str ''&to 0'') = Inr (str ''TO'' @ str ''0'')"
    using T [of "str ''&to 0''" _ ascii_runtime "str ''0''" "[]"] n t by blast
  moreover have "parse_binding ascii_runtime (str ''&lt 2 SPACE'') = Inr (str ''LT'' @ str ''2'')"
    using T [of "str ''&lt 2 SPACE''" _ ascii_runtime "str ''2''" "str '' SPACE''"] n l by blast
  ultimately show ?thesis using k1 k2 n m t l by (simp add: str_def)
qed

subsection \<open>The fallback label\<close>

lemma lstrip_amp: "lstrip s (str ''&'') = dropWhile (\<lambda>c. c = 38) s"
  by (simp add: lstrip_def str_def)

text \<open>
  Claim C7, as amended. The decoder strips surrounding white space and then removes every
  leading \<^verbatim>\<open>&\<close>, not only one: what remains never starts with \<^verbatim>\<open>&\<close>. When the
  remainder matches no \<^verbatim>\<open>mo\<close>, \<^verbatim>\<open>to\<close> or \<^verbatim>\<open>lt\<close> prefix, no key of the table
  and no \<^verbatim>\<open>kp\<close> prefix, the label is its first 6 characters.
\<close>

theorem parse_binding_fallback:
  "(let binding = dropWhile (\<lambda>c. c = 38) (strip b) in
      (binding = [] \<or> hd binding \<noteq> 38) \<and>
      (\<not> startswith binding (str ''mo '') \<and> \<not> startswith binding (str ''to '') \<and>
       \<not> startswith binding (str ''lt '') \<and> map_of KEY_DISPLAY binding = None \<and>
       \<not> startswith binding (str ''kp '') \<longrightarrow>
       parse_binding U b = Inr (take 6 binding)))"
proof -
  have "dropWhile (\<lambda>c. c = 38) (strip b) = [] \<or> hd (dropWhile (\<lambda>c. c = 38) (strip b)) \<noteq> (38::int)"
    using hd_dropWhile [of "\<lambda>c. c = (38::int)" "strip b"] by blast
  then show ?thesis
    by (simp add: parse_binding_def Let_def lstrip_amp)
qed

theorem parse_binding_fallback_witness:
  "dropWhile (\<lambda>c. c = 38) (strip (str '' &&customaction123 '')) = str ''customaction123'' \<and>
   \<not> startswith (str ''customaction123'') (str ''mo '') \<and>
   \<not> startswith (str ''customaction123'') (str ''to '') \<and>
   \<not> startswith (str ''customaction123'') (str ''lt '') \<and>
   map_of KEY_DISPLAY (str ''customaction123'') = None \<and>
   \<not> startswith (str ''customaction123'') (str ''kp '') \<and>
   parse_binding ascii_runtime (str '' &&customaction123 '') = Inr (str ''custom'')"
proof -
  have d: "dropWhile (\<lambda>c. c = 38) (strip (str '' &&customaction123 '')) = str ''customaction123''"
    by code_simp
  have h: "\<not> startswith (str ''customaction123'') (str ''mo '')"
    "\<not> startswith (str ''customaction123'') (str ''to '')"
    "\<not> startswith (str ''customaction123'') (str ''lt '')"
    "map_of KEY_DISPLAY (str ''customaction123'') = None"
    "\<not> startswith (str ''customaction123'') (str ''kp '')"
    by code_simp+
  have t: "take 6 (str ''customaction123'') = str ''custom''" by code_simp
  have "parse_binding ascii_runtime (str '' &&customaction123 '') = Inr (take 6 (str ''customaction123''))"
    using parse_binding_fallback [of "str '' &&customaction123 ''" ascii_runtime] h
    unfolding Let_def d by blast
  then show ?thesis using d h t by simp
qed

text \<open>
  The claim as first stated fails on a token with two leading \<^verbatim>\<open>&\<close>: removing a single
  one would leave \<^verbatim>\<open>&foo\<close>, which matches no prefix and no key and would be its own
  label; the decoder returns \<^verbatim>\<open>foo\<close>.
\<close>

theorem single_ampersand_counterexample:
  "single_amp (strip (str ''&&foo'')) = str ''&foo'' \<and>
   \<not> startswith (str ''&foo'') (str ''mo '') \<and> \<not> startswith (str ''&foo'') (str ''to '') \<and>
   \<not> startswith (str ''&foo'') (str ''lt '') \<and> map_of KEY_DISPLAY (str ''&foo'') = None \<and>
   \<not> startswith (str ''&foo'') (str ''kp '') \<and>
   take 6 (str ''&foo'') = str ''&foo'' \<and>
   parse_binding ascii_runtime (str ''&&foo'') = Inr (str ''foo'') \<and>
   parse_binding ascii_runtime (str ''&&foo'') \<noteq> Inr (str ''&foo'')"
  by code_simp

subsection \<open>Unknown key presses\<close>

text \<open>
  Claim C8, as amended. For a token \<^verbatim>\<open>kp X\<close> that is not a key of the table the decoder
  returns \<^verbatim>\<open>X.capitalize()\<close>. On ASCII text that is \<open>X\<close> with its first character in
  upper case and every other character in lower case: when \<open>X\<close> begins with a character
  that is not a letter, that character is kept and no letter of the label is upper case.
  Beyond ASCII the label is what the case mappings of \<^verbatim>\<open>str.capitalize\<close> give, which
  can differ in length from \<open>X\<close>; it is not described character by character.
\<close>

theorem parse_binding_kp_capitalize:
  "lstrip (strip b) (str ''&'') = str ''kp '' @ X \<and>
   map_of KEY_DISPLAY (str ''kp '' @ X) = None \<longrightarrow>
     parse_binding U b = Inr (capitalize U X) \<and>
     (ascii_cases U \<and> (\<forall>c\<in>set X. 0 \<le> c \<and> c < 128) \<longrightarrow>
        parse_binding U b =
          Inr (case X of [] \<Rightarrow> [] | c # cs \<Rightarrow> ascii_upper c # map ascii_lower cs))"
proof (intro impI, elim conjE)
  assume r: "lstrip (strip b) (str ''&'') = str ''kp '' @ X"
    and n: "map_of KEY_DISPLAY (str ''kp '' @ X) = None"
  have "parse_binding U b = Inr (capitalize U X)"
    unfolding parse_binding_def Let_def r using n
    by (simp add: startswith_def prefixes)
  moreover have "capitalize U X = (case X of [] \<Rightarrow> [] | c # cs \<Rightarrow> ascii_upper c # map ascii_lower cs)"
    if "ascii_cases U" "\<forall>c\<in>set X. 0 \<le> c \<and> c < 128"
    using that by (cases X) (simp_all add: ascii_cases_def)
  ultimately show "parse_binding U b = Inr (capitalize U X) \<and>
     (ascii_cases U \<and> (\<forall>c\<in>set X. 0 \<le> c \<and> c < 128) \<longrightarrow>
        parse_binding U b =
          Inr (case X of [] \<Rightarrow> [] | c # cs \<Rightarrow> ascii_upper c # map ascii_lower cs))"
    by simp
qed

lemma ascii_runtime_cases: "ascii_cases ascii_runtime"
  by (simp add: ascii_cases_def ascii_runtime_def)

theorem parse_binding_kp_capitalize_witness:
  "lstrip (strip (str ''&kp FOO'')) (str ''&'') = str ''kp '' @ str ''FOO'' \<and>
   map_of KEY_DISPLAY (str ''kp '' @ str ''FOO'') = None \<and>
   ascii_cases ascii_runtime \<and> list_all (\<lambda>c. 0 \<le> c \<and> c < 128) (str ''FOO'') \<and>
   parse_binding ascii_runtime (str ''&kp FOO'') = Inr (str ''Foo'')"
proof -
  have r: "lstrip (strip (str ''&kp FOO'')) (str ''&'') = str ''kp '' @ str ''FOO''"
    by code_simp
  have n: "map_of KEY_DISPLAY (str ''kp '' @ str ''FOO'') = None" by code_simp
  have a: "list_all (\<lambda>c. 0 \<le> c \<and> c < 128) (str ''FOO'')" by code_simp
  have v: "(case str ''FOO'' of [] \<Rightarrow> [] | c # cs \<Rightarrow> ascii_upper c # map ascii_lower cs) = str ''Foo''"
    by code_simp
  have "parse_binding ascii_runtime (str ''&kp FOO'') =
      Inr (case str ''FOO'' of [] \<Rightarrow> [] | c # cs \<Rightarrow> ascii_upper c # map ascii_lower cs)"
    using parse_binding_kp_capitalize [of "str ''&kp FOO''" "str ''FOO''" ascii_runtime]
      r n a ascii_runtime_cases unfolding list_all_iff by blast
  then show ?thesis using r n a v ascii_runtime_cases by simp
qed

text \<open>
  The claim as first stated asks for the first alphabetic character to be capitalised
  also when \<open>X\<close> begins with another character: \<^verbatim>\<open>1ABC\<close> would give \<^verbatim>\<open>1Abc\<close>. The
  decoder returns \<^verbatim>\<open>1abc\<close>.
\<close>

theorem capitalize_first_alphabetic_counterexample:
  "lstrip (strip (str ''&kp 1ABC'')) (str ''&'') = str ''kp '' @ str ''1ABC'' \<and>
   map_of KEY_DISPLAY (str ''kp '' @ str ''1ABC'') = None \<and>
   capitalize_first_alpha (str ''1ABC'') = str ''1Abc'' \<and>
   parse_binding ascii_runtime (str ''&kp 1ABC'') = Inr (str ''1abc'') \<and>
   parse_binding ascii_runtime (str ''&kp 1ABC'') \<noteq> Inr (capitalize_first_alpha (str ''1ABC''))"
  by code_simp

section \<open>Properties of the renderer\<close>

lemma traverse_map:
  "(\<And>x. x \<in> set xs \<Longrightarrow> f x = Inr (g x)) \<Longrightarrow> traverse f xs = Inr (map g xs)"
  by (induction xs) auto

lemma parse_binding_label: "parse_binding U b = Inr (label_of U b)"
  using parse_binding_returns [of U b] by (auto simp: label_of_def)

lemma decode_all: "traverse (parse_binding U) bindings = Inr (map (label_of U) bindings)"
  by (rule traverse_map) (rule parse_binding_label)

lemma padded_length: "42 \<le> length (padded decoded)"
  by (simp add: padded_def)

lemma padded_nth:
  "i < 42 \<Longrightarrow> padded (map (label_of U) bindings) ! i = key_at U bindings i"
  by (auto simp: padded_def key_at_def nth_append)

lemma cells_eq:
  assumes "hi \<le> 42"
  shows "cells (padded (map (label_of U) bindings)) lo hi =
    Inr (join vbar (map (\<lambda>i. fmt (key_at U bindings i)) [lo ..< hi]))"
proof -
  let ?keys = "padded (map (label_of U) bindings)"
  have "traverse (getitem ?keys) [lo ..< hi] = Inr (map (key_at U bindings) [lo ..< hi])"
  proof (rule traverse_map)
    fix i assume "i \<in> set [lo ..< hi]"
    then have "i < 42" using assms by simp
    then show "getitem ?keys i = Inr (key_at U bindings i)"
      using padded_length [of "map (label_of U) bindings"] padded_nth [of i U bindings]
      by (simp add: getitem_def)
  qed
  then show ?thesis by (simp add: cells_def bind_err_def comp_def)
qed

lemma fmt_short:
  assumes "length s \<le> 7"
  shows "length (fmt s) = 7 \<and>
    (\<exists>l r. fmt s = replicate l 32 @ s @ replicate r 32 \<and> (l = r \<or> l = r + 1))"
proof (cases "length s = 7")
  case True
  then show ?thesis
    by (auto simp: fmt_def center_def intro!: exI [of _ 0])
next
  case False
  define n where "n = length s"
  define l where "l = (7 - n) div 2 + (if odd (7 - n) \<and> odd (7::nat) then 1 else 0)"
  define r where "r = 7 - n - l"
  have f: "fmt s = replicate l 32 @ s @ replicate r 32"
    using False assms by (simp add: fmt_def center_def Let_def l_def r_def n_def)
  have "n < 7" using False assms unfolding n_def by simp
  then have "n = 0 \<or> n = 1 \<or> n = 2 \<or> n = 3 \<or> n = 4 \<or> n = 5 \<or> n = 6" by arith
  then have a: "l + n + r = 7 \<and> (l = r \<or> l = r + 1)"
    unfolding l_def r_def by auto
  then have "length (fmt s) = 7" unfolding f n_def by simp
  then show ?thesis using f a by blast
qed

lemma fmt_long: "7 < length s \<Longrightarrow> fmt s = s"
  by (simp add: fmt_def center_def)

lemma key_at_take: "i < 42 \<Longrightarrow> key_at U (take 42 bindings) i = key_at U bindings i"
  by (simp add: key_at_def)

lemma format_explicit:
  "format_corne_layer U bindings layer_name =
     (let k = (\<lambda>i. fmt (key_at U bindings i));
          half = (\<lambda>a b c d e f.
            vbar @ a @ vbar @ b @ vbar @ c @ vbar @ d @ vbar @ e @ vbar @ f @ vbar);
          thumb = (\<lambda>a b c. vbar @ a @ vbar @ b @ vbar @ c @ vbar)
      in Inr (join [10]
        [str ''### '' @ layer_name,
         str ''```'',
         line_top,
         half (k 0) (k 1) (k 2) (k 3) (k 4) (k 5) @ gap @
           half (k 6) (k 7) (k 8) (k 9) (k 10) (k 11),
         line_mid,
         half (k 12) (k 13) (k 14) (k 15) (k 16) (k 17) @ gap @
           half (k 18) (k 19) (k 20) (k 21) (k 22) (k 23),
         line_mid,
         half (k 24) (k 25) (k 26) (k 27) (k 28) (k 29) @ gap @
           half (k 30) (k 31) (k 32) (k 33) (k 34) (k 35),
         line_bottom,
         indent @ thumb (k 36) (k 37) (k 38) @ gap @ thumb (k 39) (k 40) (k 41),
         line_thumb,
         str ''```'']))"
proof -
  let ?keys = "padded (map (label_of U) bindings)"
  let ?k = "\<lambda>i. fmt (key_at U bindings i)"
  have r: "[0 ..< 6] = [0, 1, 2, 3, 4, 5]" "[6 ..< 12] = [6, 7, 8, 9, 10, 11]"
    "[12 ..< 18] = [12, 13, 14, 15, 16, 17]" "[18 ..< 24] = [18, 19, 20, 21, 22, 23]"
    "[24 ..< 30] = [24, 25, 26, 27, 28, 29]" "[30 ..< 36] = [30, 31, 32, 33, 34, 35]"
    "[36 ..< 39] = [36, 37, 38]" "[39 ..< 42] = [39, 40, 41::nat]"
    by (simp_all add: upt_rec)
  have j6: "join vbar [a, b, c, d, e, f] = a @ vbar @ b @ vbar @ c @ vbar @ d @ vbar @ e @ vbar @ f"
    for a b c d e f by simp
  have j3: "join vbar [a, b, c] = a @ vbar @ b @ vbar @ c" for a b c by simp
  have c: "cells ?keys 0 6 = Inr (?k 0 @ vbar @ ?k 1 @ vbar @ ?k 2 @ vbar @ ?k 3 @ vbar @ ?k 4 @ vbar @ ?k 5)"
    "cells ?keys 6 12 = Inr (?k 6 @ vbar @ ?k 7 @ vbar @ ?k 8 @ vbar @ ?k 9 @ vbar @ ?k 10 @ vbar @ ?k 11)"
    "cells ?keys 12 18 = Inr (?k 12 @ vbar @ ?k 13 @ vbar @ ?k 14 @ vbar @ ?k 15 @ vbar @ ?k 16 @ vbar @ ?k 17)"
    "cells ?keys 18 24 = Inr (?k 18 @ vbar @ ?k 19 @ vbar @ ?k 20 @ vbar @ ?k 21 @ vbar @ ?k 22 @ vbar @ ?k 23)"
    "cells ?keys 24 30 = Inr (?k 24 @ vbar @ ?k 25 @ vbar @ ?k 26 @ vbar @ ?k 27 @ vbar @ ?k 28 @ vbar @ ?k 29)"
    "cells ?keys 30 36 = Inr (?k 30 @ vbar @ ?k 31 @ vbar @ ?k 32 @ vbar @ ?k 33 @ vbar @ ?k 34 @ vbar @ ?k 35)"
    "cells ?keys 36 39 = Inr (?k 36 @ vbar @ ?k 37 @ vbar @ ?k 38)"
    "cells ?keys 39 42 = Inr (?k 39 @ vbar @ ?k 40 @ vbar @ ?k 41)"
    by (simp_all only: cells_eq r list.map j6 j3)
  have "format_corne_layer U bindings layer_name =
      bind_err (cells ?keys 0 6) (\<lambda>row1_left.
      bind_err (cells ?keys 6 12) (\<lambda>row1_right.
      bind_err (cells ?keys 12 18) (\<lambda>row2_left.
      bind_err (cells ?keys 18 24) (\<lambda>row2_right.
      bind_err (cells ?keys 24 30) (\<lambda>row3_left.
      bind_err (cells ?keys 30 36) (\<lambda>row3_right.
      bind_err (cells ?keys 36 39) (\<lambda>thumb_left.
      bind_err (cells ?keys 39 42) (\<lambda>thumb_right.
      Inr (join [10]
       [str ''### '' @ layer_name,
        str ''```'',
        line_top,
        vbar @ row1_left @ vbar @ gap @ vbar @ row1_right @ vbar,
        line_mid,
        vbar @ row2_left @ vbar @ gap @ vbar @ row2_right @ vbar,
        line_mid,
        vbar @ row3_left @ vbar @ gap @ vbar @ row3_right @ vbar,
        line_bottom,
        indent @ vbar @ thumb_left @ vbar @ gap @ vbar @ thumb_right @ vbar,
        line_thumb,
        str ''```''])))))))))"
    unfolding format_corne_layer_def decode_all padded_def Let_def
    by (simp only: bind_err_def sum.case)
  also have "\<dots> = Inr (join [10]
       [str ''### '' @ layer_name,
        str ''```'',
        line_top,
        vbar @ (?k 0 @ vbar @ ?k 1 @ vbar @ ?k 2 @ vbar @ ?k 3 @ vbar @ ?k 4 @ vbar @ ?k 5) @ vbar @ gap @
          vbar @ (?k 6 @ vbar @ ?k 7 @ vbar @ ?k 8 @ vbar @ ?k 9 @ vbar @ ?k 10 @ vbar @ ?k 11) @ vbar,
        line_mid,
        vbar @ (?k 12 @ vbar @ ?k 13 @ vbar @ ?k 14 @ vbar @ ?k 15 @ vbar @ ?k 16 @ vbar @ ?k 17) @ vbar @ gap @
          vbar @ (?k 18 @ vbar @ ?k 19 @ vbar @ ?k 20 @ vbar @ ?k 21 @ vbar @ ?k 22 @ vbar @ ?k 23) @ vbar,
        line_mid,
        vbar @ (?k 24 @ vbar @ ?k 25 @ vbar @ ?k 26 @ vbar @ ?k 27 @ vbar @ ?k 28 @ vbar @ ?k 29) @ vbar @ gap @
          vbar @ (?k 30 @ vbar @ ?k 31 @ vbar @ ?k 32 @ vbar @ ?k 33 @ vbar @ ?k 34 @ vbar @ ?k 35) @ vbar,
        line_bottom,
        indent @ vbar @ (?k 36 @ vbar @ ?k 37 @ vbar @ ?k 38) @ vbar @ gap @
          vbar @ (?k 39 @ vbar @ ?k 40 @ vbar @ ?k 41) @ vbar,
        line_thumb,
        str ''```''])"
    by (simp only: c bind_err_def sum.case)
  finally show ?thesis
    by (simp only: Let_def append_assoc)
qed

text \<open>
  Claim C3, as amended. The renderer decodes the bindings in their order, fills the list
  of labels with empty strings up to 42, ignores what lies at index 42 and beyond, and
  puts the labels at the documented places: indices 0 to 35 as three rows of 6 and 6 keys,
  36 to 38 as the left thumb keys, 39 to 41 as the right ones, between the documented
  dividers. A cell is its label centred with spaces in 7 characters when the label has at
  most 7 characters (the left margin taking the extra space); a longer label is neither
  cut nor padded, and its cell is as wide as the label.
\<close>

theorem format_corne_layer_layout:
  "format_corne_layer U bindings layer_name =
     (let k = (\<lambda>i. fmt (key_at U bindings i));
          half = (\<lambda>a b c d e f.
            vbar @ a @ vbar @ b @ vbar @ c @ vbar @ d @ vbar @ e @ vbar @ f @ vbar);
          thumb = (\<lambda>a b c. vbar @ a @ vbar @ b @ vbar @ c @ vbar)
      in Inr (join [10]
        [str ''### '' @ layer_name,
         str ''```'',
         line_top,
         half (k 0) (k 1) (k 2) (k 3) (k 4) (k 5) @ gap @
           half (k 6) (k 7) (k 8) (k 9) (k 10) (k 11),
         line_mid,
         half (k 12) (k 13) (k 14) (k 15) (k 16) (k 17) @ gap @
           half (k 18) (k 19) (k 20) (k 21) (k 22) (k 23),
         line_mid,
         half (k 24) (k 25) (k 26) (k 27) (k 28) (k 29) @ gap @
           half (k 30) (k 31) (k 32) (k 33) (k 34) (k 35),
         line_bottom,
         indent @ thumb (k 36) (k 37) (k 38) @ gap @ thumb (k 39) (k 40) (k 41),
         line_thumb,
         str ''```''])) \<and>
   format_corne_layer U (take 42 bindings) layer_name =
     format_corne_layer U bindings layer_name \<and>
   (i < length bindings \<longrightarrow> parse_binding U (bindings ! i) = Inr (key_at U bindings i)) \<and>
   (length bindings \<le> i \<longrightarrow> key_at U bindings i = []) \<and>
   (length s \<le> 7 \<longrightarrow>
      length (fmt s) = 7 \<and>
      (\<exists>l r. fmt s = replicate l 32 @ s @ replicate r 32 \<and> (l = r \<or> l = r + 1))) \<and>
   (7 < length s \<longrightarrow> fmt s = s)"
proof -
  have "format_corne_layer U (take 42 bindings) layer_name =
      format_corne_layer U bindings layer_name"
    by (simp only: format_explicit [of U "take 42 bindings"] format_explicit [of U bindings])
      (simp add: key_at_take)
  moreover have "i < length bindings \<longrightarrow>
      parse_binding U (bindings ! i) = Inr (key_at U bindings i)"
    by (simp add: key_at_def parse_binding_label)
  moreover have "length bindings \<le> i \<longrightarrow> key_at U bindings i = []"
    by (simp add: key_at_def)
  ultimately show ?thesis
    using format_explicit [of U bindings layer_name] fmt_short [of s] fmt_long [of s]
    by blast
qed

theorem format_corne_layer_layout_witness:
  "format_corne_layer ascii_runtime [str ''&kp A'', str ''&mo 1''] (str ''layer_0'') =
     Inr (join [10]
       [str ''### layer_0'',
        str ''```'',
        line_top,
        vbar @ str ''   A   '' @ vbar @ str ''   L1  '' @ vbar @ gap @ vbar @ gap @ vbar @ gap @
          vbar @ gap @ vbar @ gap @
          vbar @ gap @ vbar @ gap @ vbar @ gap @ vbar @ gap @ vbar @ gap @ vbar @ gap @ vbar,
        line_mid,
        vbar @ gap @ vbar @ gap @ vbar @ gap @ vbar @ gap @ vbar @ gap @ vbar @ gap @ vbar @ gap @
          vbar @ gap @ vbar @ gap @ vbar @ gap @ vbar @ gap @ vbar @ gap @ vbar @ gap @ vbar,
        line_mid,
        vbar @ gap @ vbar @ gap @ vbar @ gap @ vbar @ gap @ vbar @ gap @ vbar @ gap @ vbar @ gap @
          vbar @ gap @ vbar @ gap @ vbar @ gap @ vbar @ gap @ vbar @ gap @ vbar @ gap @ vbar,
        line_bottom,
        indent @ vbar @ gap @ vbar @ gap @ vbar @ gap @ vbar @ gap @
          vbar @ gap @ vbar @ gap @ vbar @ gap @ vbar,
        line_thumb,
        str ''```'']) \<and>
   (1::nat) < length [str ''&kp A'', str ''&mo 1''] \<and>
   parse_binding ascii_runtime ([str ''&kp A'', str ''&mo 1''] ! 1) = Inr (str ''L1'') \<and>
   length [str ''&kp A'', str ''&mo 1''] \<le> (2::nat) \<and>
   key_at ascii_runtime [str ''&kp A'', str ''&mo 1''] 2 = [] \<and>
   length (str ''L1'') \<le> 7 \<and> length (fmt (str ''L1'')) = 7 \<and>
   fmt (str ''L1'') = replicate 3 32 @ str ''L1'' @ replicate 2 32 \<and>
   7 < length (str ''Printscreen'') \<and> fmt (str ''Printscreen'') = str ''Printscreen''"
proof -
  let ?bs = "[str ''&kp A'', str ''&mo 1'']"
  note T1 = format_corne_layer_layout [of ascii_runtime ?bs "str ''layer_0''" 1 "str ''L1''"]
  note T2 = format_corne_layer_layout
      [of ascii_runtime ?bs "str ''layer_0''" 2 "str ''Printscreen''"]
  have h: "(1::nat) < length ?bs" "length ?bs \<le> (2::nat)" "length (str ''L1'') \<le> 7"
    "7 < length (str ''Printscreen'')"
    by (simp_all add: str_def)
  have k: "key_at ascii_runtime ?bs 1 = str ''L1''"
    "fmt (str ''L1'') = replicate 3 32 @ str ''L1'' @ replicate 2 32"
    by code_simp+
  have "format_corne_layer ascii_runtime ?bs (str ''layer_0'') =
      (let k = (\<lambda>i. fmt (key_at ascii_runtime ?bs i));
          half = (\<lambda>a b c d e f.
            vbar @ a @ vbar @ b @ vbar @ c @ vbar @ d @ vbar @ e @ vbar @ f @ vbar);
          thumb = (\<lambda>a b c. vbar @ a @ vbar @ b @ vbar @ c @ vbar)
      in Inr (join [10]
        [str ''### '' @ str ''layer_0'',
         str ''```'',
         line_top,
         half (k 0) (k 1) (k 2) (k 3) (k 4) (k 5) @ gap @
           half (k 6) (k 7) (k 8) (k 9) (k 10) (k 11),
         line_mid,
         half (k 12) (k 13) (k 14) (k 15) (k 16) (k 17) @ gap @
           half (k 18) (k 19) (k 20) (k 21) (k 22) (k 23),
         line_mid,
         half (k 24) (k 25) (k 26) (k 27) (k 28) (k 29) @ gap @
           half (k 30) (k 31) (k 32) (k 33) (k 34) (k 35),
         line_bottom,
         indent @ thumb (k 36) (k 37) (k 38) @ gap @ thumb (k 39) (k 40) (k 41),
         line_thumb,
         str ''```'']))"
    using T1 by blast
  also have "\<dots> = Inr (join [10]
       [str ''### layer_0'',
        str ''```'',
        line_top,
        vbar @ str ''   A   '' @ vbar @ str ''   L1  '' @ vbar @ gap @ vbar @ gap @ vbar @ gap @
          vbar @ gap @ vbar @ gap @
          vbar @ gap @ vbar @ gap @ vbar @ gap @ vbar @ gap @ vbar @ gap @ vbar @ gap @ vbar,
        line_mid,
        vbar @ gap @ vbar @ gap @ vbar @ gap @ vbar @ gap @ vbar @ gap @ vbar @ gap @ vbar @ gap @
          vbar @ gap @ vbar @ gap @ vbar @ gap @ vbar @ gap @ vbar @ gap @ vbar @ gap @ vbar,
        line_mid,
        vbar @ gap @ vbar @ gap @ vbar @ gap @ vbar @ gap @ vbar @ gap @ vbar @ gap @ vbar @ gap @
          vbar @ gap @ vbar @ gap @ vbar @ gap @ vbar @ gap @ vbar @ gap @ vbar @ gap @ vbar,
        line_bottom,
        indent @ vbar @ gap @ vbar @ gap @ vbar @ gap @ vbar @ gap @
          vbar @ gap @ vbar @ gap @ vbar @ gap @ vbar,
        line_thumb,
        str ''```''])"
    by code_simp
  finally have f: "format_corne_layer ascii_runtime ?bs (str ''layer_0'') =
      Inr (join [10]
       [str ''### layer_0'',
        str ''```'',
        line_top,
        vbar @ str ''   A   '' @ vbar @ str ''   L1  '' @ vbar @ gap @ vbar @ gap @ vbar @ gap @
          vbar @ gap @ vbar @ gap @
          vbar @ gap @ vbar @ gap @ vbar @ gap @ vbar @ gap @ vbar @ gap @ vbar @ gap @ vbar,
        line_mid,
        vbar @ gap @ vbar @ gap @ vbar @ gap @ vbar @ gap @ vbar @ gap @ vbar @ gap @ vbar @ gap @
          vbar @ gap @ vbar @ gap @ vbar @ gap @ vbar @ gap @ vbar @ gap @ vbar @ gap @ vbar,
        line_mid,
        vbar @ gap @ vbar @ gap @ vbar @ gap @ vbar @ gap @ vbar @ gap @ vbar @ gap @ vbar @ gap @
          vbar @ gap @ vbar @ gap @ vbar @ gap @ vbar @ gap @ vbar @ gap @ vbar @ gap @ vbar,
        line_bottom,
        indent @ vbar @ gap @ vbar @ gap @ vbar @ gap @ vbar @ gap @
          vbar @ gap @ vbar @ gap @ vbar @ gap @ vbar,
        line_thumb,
        str ''```''])" .
  have p: "parse_binding ascii_runtime (?bs ! 1) = Inr (str ''L1'')"
    using T1 h k by simp
  have e: "key_at ascii_runtime ?bs 2 = []" using T2 h by blast
  have s: "length (fmt (str ''L1'')) = 7" using T1 h by blast
  have l: "fmt (str ''Printscreen'') = str ''Printscreen''" using T2 h by blast
  show ?thesis
    by (intro conjI f h p e s k l)
qed

text \<open>
  The claim as first stated gives every cell the fixed width 7. A key press that the table
  does not know keeps its whole name: \<^verbatim>\<open>&kp PRINTSCREEN\<close> is shown as
  \<^verbatim>\<open>Printscreen\<close>, 11 characters wide, and its row is 109 characters long under
  dividers of 105.
\<close>

theorem long_label_counterexample:
  "parse_binding ascii_runtime (str ''&kp PRINTSCREEN'') = Inr (str ''Printscreen'') \<and>
   length (fmt (str ''Printscreen'')) = 11 \<and>
   (case format_corne_layer ascii_runtime [str ''&kp PRINTSCREEN''] (str ''layer_0'') of
      Inl e \<Rightarrow> []
    | Inr text \<Rightarrow> map length (split_on 10 text)) =
     [11, 3, 105, 109, 105, 105, 105, 105, 105, 81, 81, 3]"
  by code_simp

section \<open>Properties of the extractor\<close>

subsection \<open>What a match of the pattern looks like\<close>

text \<open>
  The matcher tries the alternatives of a pattern in the order of a backtracking matcher.
  Whatever alternative succeeds, the text it has consumed has the shape of the pattern; the
  lemmas below read that shape off, one item at a time.
\<close>

lemma first_some_Some:
  "first_some f xs = Some r \<Longrightarrow> \<exists>x \<in> set xs. f x = Some r"
  by (induction xs) (auto split: option.splits)

lemma take_run:
  assumes "k \<le> length (takeWhile P s)"
  shows "s = take k s @ drop k s \<and> (\<forall>c \<in> set (take k s). P c) \<and> length (take k s) = k"
proof -
  have "take k s = take k (takeWhile P s)"
    using assms by (metis takeWhile_dropWhile_id take_append diff_is_0_eq take_0 append_Nil2)
  then have "set (take k s) \<subseteq> set (takeWhile P s)" by (metis set_take_subset)
  moreover have "k \<le> length s" using assms length_takeWhile_le [of P s] by simp
  ultimately show ?thesis by (auto dest: set_takeWhileD)
qed

lemma bt_Lit:
  "bt (Lit l # items) s g = Some r \<Longrightarrow> \<exists>s'. s = l @ s' \<and> bt items s' g = Some r"
  by (auto simp: prefix_def split: if_splits)

lemma bt_Greedy:
  assumes "bt (Greedy P n # items) s g = Some r"
  shows "\<exists>m s'. s = m @ s' \<and> n \<le> length m \<and> (\<forall>c \<in> set m. P c) \<and> bt items s' g = Some r"
proof -
  from assms obtain k where k: "n \<le> k" "k \<le> length (takeWhile P s)"
      "bt items (drop k s) g = Some r"
    by (auto dest!: first_some_Some)
  from take_run [OF k(2)] k show ?thesis by metis
qed

lemma bt_Lazy:
  assumes "bt (Lazy P n # items) s g = Some r"
  shows "\<exists>m s'. s = m @ s' \<and> n \<le> length m \<and> (\<forall>c \<in> set m. P c) \<and> bt items s' g = Some r"
proof -
  from assms obtain k where k: "n \<le> k" "k \<le> length (takeWhile P s)"
      "bt items (drop k s) g = Some r"
    by (auto dest!: first_some_Some)
  from take_run [OF k(2)] k show ?thesis by metis
qed

lemma bt_Alt:
  "bt (Alt a b # items) s g = Some r \<Longrightarrow>
     bt (a @ items) s g = Some r \<or> bt (b @ items) s g = Some r"
  by (auto split: option.splits)

lemma bt_name:
  assumes "bt (Group 1 [Alt [Lit (str ''Layer_''), Greedy (is_decimal U) 1]
                   [Lit (str ''layer_''), Greedy (is_decimal U) 1]] # items) s g = Some r"
  shows "\<exists>p ds s'. s = p @ ds @ s' \<and> (p = str ''Layer_'' \<or> p = str ''layer_'') \<and> ds \<noteq> [] \<and>
           (\<forall>c \<in> set ds. is_decimal U c) \<and> bt items s' ((1, p @ ds) # g) = Some r"
proof -
  let ?e = "EndGroup 1 s # items"
  from assms have "bt (Alt [Lit (str ''Layer_''), Greedy (is_decimal U) 1]
                   [Lit (str ''layer_''), Greedy (is_decimal U) 1] # ?e) s g = Some r"
    unfolding bt.simps(6) by (simp only: append.simps)
  from bt_Alt [OF this]
  have "bt (Lit (str ''Layer_'') # Greedy (is_decimal U) 1 # ?e) s g = Some r \<or>
        bt (Lit (str ''layer_'') # Greedy (is_decimal U) 1 # ?e) s g = Some r"
    by (simp only: append.simps)
  then obtain p where p: "p = str ''Layer_'' \<or> p = str ''layer_''"
    "bt (Lit p # Greedy (is_decimal U) 1 # ?e) s g = Some r"
    by blast
  from bt_Lit [OF p(2)] obtain s1 where s1: "s = p @ s1"
    "bt (Greedy (is_decimal U) 1 # ?e) s1 g = Some r" by blast
  from bt_Greedy [OF s1(2)] obtain ds s' where d: "s1 = ds @ s'" "1 \<le> length ds"
    "\<forall>c \<in> set ds. is_decimal U c" "bt ?e s' g = Some r" by blast
  have "take (length s - length s') s = p @ ds" using s1(1) d(1) by simp
  with d(4) have "bt items s' ((1, p @ ds) # g) = Some r" unfolding bt.simps(7) by simp
  with s1(1) d p(1) show ?thesis by (intro exI [of _ p] exI [of _ ds] exI [of _ s']) auto
qed

lemma bt_capture:
  assumes "bt (Group 2 [Greedy P 1] # items) s g = Some r"
  shows "\<exists>cap s'. s = cap @ s' \<and> cap \<noteq> [] \<and> (\<forall>c \<in> set cap. P c) \<and>
           bt items s' ((2, cap) # g) = Some r"
proof -
  from assms have "bt (Greedy P 1 # EndGroup 2 s # items) s g = Some r"
    unfolding bt.simps(6) by (simp only: append.simps)
  from bt_Greedy [OF this] obtain cap s' where d: "s = cap @ s'" "1 \<le> length cap"
    "\<forall>c \<in> set cap. P c" "bt (EndGroup 2 s # items) s' g = Some r" by blast
  have "take (length s - length s') s = cap" using d(1) by simp
  with d(4) have "bt items s' ((2, cap) # g) = Some r" unfolding bt.simps(7) by simp
  with d show ?thesis by (intro exI [of _ cap] exI [of _ s']) auto
qed

lemma bt_layer_pattern:
  assumes "bt (layer_pattern U) s [] = Some (rest, g)"
  shows "\<exists>ws1 inner ws2 ws3 ws4 ws5.
           s = group g 1 @ ws1 @ str ''{'' @ inner @ str ''bindings'' @ ws2 @ str ''='' @ ws3 @
               str ''<'' @ ws4 @ group g 2 @ ws5 @ str ''>'' @ rest \<and>
           layer_identifier U (group g 1) \<and>
           list_all isspace (ws1 @ ws2 @ ws3 @ ws4 @ ws5) \<and>
           list_all (\<lambda>c. \<not> brace c) inner \<and>
           group g 2 \<noteq> [] \<and> list_all (\<lambda>c. c \<noteq> 62) (group g 2)"
proof -
  note a = assms [unfolded layer_pattern_def]
  from bt_name [OF a] obtain p ds s1 where n: "s = p @ ds @ s1"
    "p = str ''Layer_'' \<or> p = str ''layer_''" "ds \<noteq> []" "\<forall>c \<in> set ds. is_decimal U c"
    and b1: "bt [Greedy isspace 0, Lit (str ''{''), Lazy (\<lambda>c. c \<noteq> 123 \<and> c \<noteq> 125) 0,
      Lit (str ''bindings''), Greedy isspace 0, Lit (str ''=''), Greedy isspace 0,
      Lit (str ''<''), Greedy isspace 0, Group 2 [Greedy (\<lambda>c. c \<noteq> 62) 1],
      Greedy isspace 0, Lit (str ''>'')] s1 [(1, p @ ds)] = Some (rest, g)"
    by blast
  from bt_Greedy [OF b1] obtain ws1 s2 where w1: "s1 = ws1 @ s2" "\<forall>c \<in> set ws1. isspace c"
    and b2: "bt [Lit (str ''{''), Lazy (\<lambda>c. c \<noteq> 123 \<and> c \<noteq> 125) 0,
      Lit (str ''bindings''), Greedy isspace 0, Lit (str ''=''), Greedy isspace 0,
      Lit (str ''<''), Greedy isspace 0, Group 2 [Greedy (\<lambda>c. c \<noteq> 62) 1],
      Greedy isspace 0, Lit (str ''>'')] s2 [(1, p @ ds)] = Some (rest, g)"
    by blast
  from bt_Lit [OF b2] obtain s3 where o: "s2 = str ''{'' @ s3"
    and b3: "bt [Lazy (\<lambda>c. c \<noteq> 123 \<and> c \<noteq> 125) 0,
      Lit (str ''bindings''), Greedy isspace 0, Lit (str ''=''), Greedy isspace 0,
      Lit (str ''<''), Greedy isspace 0, Group 2 [Greedy (\<lambda>c. c \<noteq> 62) 1],
      Greedy isspace 0, Lit (str ''>'')] s3 [(1, p @ ds)] = Some (rest, g)"
    by blast
  from bt_Lazy [OF b3] obtain inner s4 where i: "s3 = inner @ s4"
      "\<forall>c \<in> set inner. c \<noteq> 123 \<and> c \<noteq> 125"
    and b4: "bt [Lit (str ''bindings''), Greedy isspace 0, Lit (str ''=''), Greedy isspace 0,
      Lit (str ''<''), Greedy isspace 0, Group 2 [Greedy (\<lambda>c. c \<noteq> 62) 1],
      Greedy isspace 0, Lit (str ''>'')] s4 [(1, p @ ds)] = Some (rest, g)"
    by blast
  from bt_Lit [OF b4] obtain s5 where k: "s4 = str ''bindings'' @ s5"
    and b5: "bt [Greedy isspace 0, Lit (str ''=''), Greedy isspace 0,
      Lit (str ''<''), Greedy isspace 0, Group 2 [Greedy (\<lambda>c. c \<noteq> 62) 1],
      Greedy isspace 0, Lit (str ''>'')] s5 [(1, p @ ds)] = Some (rest, g)"
    by blast
  from bt_Greedy [OF b5] obtain ws2 s6 where w2: "s5 = ws2 @ s6" "\<forall>c \<in> set ws2. isspace c"
    and b6: "bt [Lit (str ''=''), Greedy isspace 0,
      Lit (str ''<''), Greedy isspace 0, Group 2 [Greedy (\<lambda>c. c \<noteq> 62) 1],
      Greedy isspace 0, Lit (str ''>'')] s6 [(1, p @ ds)] = Some (rest, g)"
    by blast
  from bt_Lit [OF b6] obtain s7 where e: "s6 = str ''='' @ s7"
    and b7: "bt [Greedy isspace 0,
      Lit (str ''<''), Greedy isspace 0, Group 2 [Greedy (\<lambda>c. c \<noteq> 62) 1],
      Greedy isspace 0, Lit (str ''>'')] s7 [(1, p @ ds)] = Some (rest, g)"
    by blast
  from bt_Greedy [OF b7] obtain ws3 s8 where w3: "s7 = ws3 @ s8" "\<forall>c \<in> set ws3. isspace c"
    and b8: "bt [Lit (str ''<''), Greedy isspace 0, Group 2 [Greedy (\<lambda>c. c \<noteq> 62) 1],
      Greedy isspace 0, Lit (str ''>'')] s8 [(1, p @ ds)] = Some (rest, g)"
    by blast
  from bt_Lit [OF b8] obtain s9 where l: "s8 = str ''<'' @ s9"
    and b9: "bt [Greedy isspace 0, Group 2 [Greedy (\<lambda>c. c \<noteq> 62) 1],
      Greedy isspace 0, Lit (str ''>'')] s9 [(1, p @ ds)] = Some (rest, g)"
    by blast
  from bt_Greedy [OF b9] obtain ws4 s10 where w4: "s9 = ws4 @ s10" "\<forall>c \<in> set ws4. isspace c"
    and b10: "bt [Group 2 [Greedy (\<lambda>c. c \<noteq> 62) 1],
      Greedy isspace 0, Lit (str ''>'')] s10 [(1, p @ ds)] = Some (rest, g)"
    by blast
  from bt_capture [OF b10] obtain cap s11 where c: "s10 = cap @ s11" "cap \<noteq> []"
      "\<forall>c \<in> set cap. c \<noteq> 62"
    and b11: "bt [Greedy isspace 0, Lit (str ''>'')] s11 [(2, cap), (1, p @ ds)] = Some (rest, g)"
    by blast
  from bt_Greedy [OF b11] obtain ws5 s12 where w5: "s11 = ws5 @ s12" "\<forall>c \<in> set ws5. isspace c"
    and b12: "bt [Lit (str ''>'')] s12 [(2, cap), (1, p @ ds)] = Some (rest, g)"
    by blast
  from bt_Lit [OF b12] obtain s13 where r: "s12 = str ''>'' @ s13"
    and b13: "bt [] s13 [(2, cap), (1, p @ ds)] = Some (rest, g)"
    by blast
  from b13 have g: "g = [(2, cap), (1, p @ ds)]" and rest: "rest = s13" by simp_all
  have g1: "group g 1 = p @ ds" and g2: "group g 2 = cap" by (simp_all add: g group_def)
  have len: "length p = 6" using n(2) by (auto simp: str_def)
  have id: "layer_identifier U (p @ ds)"
    using n(2-4) len by (auto simp: layer_identifier_def list_all_iff)
  have eq: "s = (p @ ds) @ ws1 @ str ''{'' @ inner @ str ''bindings'' @ ws2 @ str ''='' @ ws3 @
               str ''<'' @ ws4 @ cap @ ws5 @ str ''>'' @ rest"
    unfolding n(1) w1(1) o i(1) k w2(1) e w3(1) l w4(1) c(1) w5(1) r rest by simp
  have ws: "list_all isspace (ws1 @ ws2 @ ws3 @ ws4 @ ws5)"
    using w1(2) w2(2) w3(2) w4(2) w5(2) by (auto simp: list_all_iff)
  have inner: "list_all (\<lambda>c. \<not> brace c) inner"
    using i(2) by (simp add: list_all_iff brace_def)
  have cap: "list_all (\<lambda>c. c \<noteq> 62) cap" using c(3) by (simp add: list_all_iff)
  show ?thesis
    unfolding g1 g2
    apply (rule exI [of _ ws1], rule exI [of _ inner], rule exI [of _ ws2],
        rule exI [of _ ws3], rule exI [of _ ws4], rule exI [of _ ws5])
    using eq id ws inner c(2) cap by blast
qed

lemma bt_suffix: "bt items s g = Some (rest, g') \<Longrightarrow> suffix rest s"
proof (induction items s g arbitrary: rest g' rule: bt.induct)
  case (1 s g)
  then show ?case by simp
next
  case (2 l items s g)
  then have "suffix rest (drop (length l) s)" by (auto split: if_splits)
  then show ?case by (meson suffix_drop suffix_order.trans)
next
  case (3 P n items s g)
  from "3.prems" have "\<exists>k \<in> set (rev [n ..< Suc (length (takeWhile P s))]).
      bt items (drop k s) g = Some (rest, g')"
    unfolding bt.simps by (rule first_some_Some)
  then obtain k where k: "k \<in> set (rev [n ..< Suc (length (takeWhile P s))])"
      "bt items (drop k s) g = Some (rest, g')"
    by blast
  from "3.IH" [OF k] have "suffix rest (drop k s)" .
  then show ?case by (meson suffix_drop suffix_order.trans)
next
  case (4 P n items s g)
  from "4.prems" have "\<exists>k \<in> set [n ..< Suc (length (takeWhile P s))].
      bt items (drop k s) g = Some (rest, g')"
    unfolding bt.simps by (rule first_some_Some)
  then obtain k where k: "k \<in> set [n ..< Suc (length (takeWhile P s))]"
      "bt items (drop k s) g = Some (rest, g')"
    by blast
  from "4.IH" [OF k] have "suffix rest (drop k s)" .
  then show ?case by (meson suffix_drop suffix_order.trans)
next
  case (5 a b items s g)
  then show ?case by (auto split: option.splits)
next
  case (6 i r items s g)
  then show ?case by simp
next
  case (7 i s0 items s g)
  then show ?case by simp
qed

lemma re_findall_match:
  "g \<in> set (re_findall pat s) \<Longrightarrow> \<exists>before s' rest. s = before @ s' \<and> bt pat s' [] = Some (rest, g)"
proof (induction pat s rule: re_findall.induct)
  case (1 pat s)
  note re_findall.simps [simp del]
  have tl: "\<exists>before s' rest. s = before @ s' \<and> bt pat s' [] = Some (rest, g)"
    if s: "s = c # cs" and m: "g \<in> set (re_findall pat cs)"
      and ih: "g \<in> set (re_findall pat cs) \<Longrightarrow>
        \<exists>before s' rest. cs = before @ s' \<and> bt pat s' [] = Some (rest, g)" for c cs
  proof -
    from ih [OF m] obtain b s' rest where "cs = b @ s'" "bt pat s' [] = Some (rest, g)"
      by blast
    then show ?thesis using s by (intro exI [of _ "c # b"] exI [of _ s'] exI [of _ rest]) simp
  qed
  show ?case
  proof (cases "bt pat s []")
    case None
    with "1.prems" obtain c cs where s: "s = c # cs" and m: "g \<in> set (re_findall pat cs)"
      by (subst (asm) re_findall.simps [of pat s]) (auto split: list.splits)
    show ?thesis by (rule tl [OF s m]) (rule "1.IH"(1) [OF None s])
  next
    case (Some a)
    obtain rest0 g0 where a: "a = (rest0, g0)" by (cases a)
    note b = Some [unfolded a]
    show ?thesis
    proof (cases "g = g0")
      case True
      with b show ?thesis by (intro exI [of _ "[]"] exI [of _ s] exI [of _ rest0]) simp
    next
      case False
      show ?thesis
      proof (cases "length rest0 < length s")
        case True
        with "1.prems" b False have m: "g \<in> set (re_findall pat rest0)"
          by (subst (asm) re_findall.simps [of pat s]) simp
        from "1.IH"(2) [OF b refl True m] obtain bf s' rest where
          r: "rest0 = bf @ s'" "bt pat s' [] = Some (rest, g)" by blast
        from bt_suffix [OF b] obtain m where "s = m @ rest0" by (auto simp: suffix_def)
        with r show ?thesis by (intro exI [of _ "m @ bf"] exI [of _ s'] exI [of _ rest]) simp
      next
        case F: False
        with "1.prems" b False obtain c cs where s: "s = c # cs"
          and m: "g \<in> set (re_findall pat cs)"
          by (subst (asm) re_findall.simps [of pat s]) (auto split: list.splits)
        show ?thesis by (rule tl [OF s m]) (rule "1.IH"(3) [OF b refl F s])
      qed
    qed
  qed
qed

lemma isspace_no_brace: "isspace c \<Longrightarrow> \<not> brace c"
  by (auto simp: isspace_def brace_def)

lemma candidate_match:
  assumes "(layer_name, bindings_str) \<in> set (candidates U content)"
  shows "\<exists>before ws1 inner ws2 ws3 ws4 ws5 after.
           strip_comments content =
             before @ layer_name @ ws1 @ str ''{'' @ inner @ str ''bindings'' @ ws2 @
             str ''='' @ ws3 @ str ''<'' @ ws4 @ bindings_str @ ws5 @ str ''>'' @ after \<and>
           layer_identifier U layer_name \<and>
           list_all isspace (ws1 @ ws2 @ ws3 @ ws4 @ ws5) \<and>
           list_all (\<lambda>c. \<not> brace c) inner \<and>
           bindings_str \<noteq> [] \<and> list_all (\<lambda>c. c \<noteq> 62) bindings_str"
proof -
  from assms obtain g where g: "g \<in> set (re_findall (layer_pattern U) (strip_comments content))"
    and n: "layer_name = group g 1" "bindings_str = group g 2"
    by (auto simp: candidates_def)
  from re_findall_match [OF g] obtain before s' rest where
    s: "strip_comments content = before @ s'" and b: "bt (layer_pattern U) s' [] = Some (rest, g)"
    by blast
  from bt_layer_pattern [OF b] obtain ws1 inner ws2 ws3 ws4 ws5 where
    "s' = group g 1 @ ws1 @ str ''{'' @ inner @ str ''bindings'' @ ws2 @ str ''='' @ ws3 @
               str ''<'' @ ws4 @ group g 2 @ ws5 @ str ''>'' @ rest \<and>
           layer_identifier U (group g 1) \<and>
           list_all isspace (ws1 @ ws2 @ ws3 @ ws4 @ ws5) \<and>
           list_all (\<lambda>c. \<not> brace c) inner \<and>
           group g 2 \<noteq> [] \<and> list_all (\<lambda>c. c \<noteq> 62) (group g 2)"
    by blast
  then have "strip_comments content =
             before @ layer_name @ ws1 @ str ''{'' @ inner @ str ''bindings'' @ ws2 @
             str ''='' @ ws3 @ str ''<'' @ ws4 @ bindings_str @ ws5 @ str ''>'' @ rest \<and>
           layer_identifier U layer_name \<and>
           list_all isspace (ws1 @ ws2 @ ws3 @ ws4 @ ws5) \<and>
           list_all (\<lambda>c. \<not> brace c) inner \<and>
           bindings_str \<noteq> [] \<and> list_all (\<lambda>c. c \<noteq> 62) bindings_str"
    unfolding s n by simp
  then show ?thesis by blast
qed

subsection \<open>Retained layers and their order\<close>




















subsection \<open>The identifier and its clause\<close>

text \<open>
  Claim C9, as amended. Every pair of an identifier and a captured text that the extractor
  forms comes from a place of the text (without its comments) where the identifier is
  followed by optional white space, one \<^verbatim>\<open>{\<close>, a text without braces, the word
  \<^verbatim>\<open>bindings\<close>, \<^verbatim>\<open>=\<close> and \<^verbatim>\<open><\<close> with optional white space around them, and then
  the captured text, optional white space and \<^verbatim>\<open>>\<close>. So between the identifier and the
  beginning of the captured text the only brace is the one that opens the block. The captured
  text is not empty and has no \<^verbatim>\<open>>\<close>; nothing more is known of it.
\<close>

theorem layer_pattern_same_block:
  assumes "(layer_name, bindings_str) \<in> set (candidates U content)"
  shows "\<exists>before ws1 inner ws2 ws3 ws4 ws5 after.
           strip_comments content =
             before @ layer_name @ ws1 @ str ''{'' @ inner @ str ''bindings'' @ ws2 @
             str ''='' @ ws3 @ str ''<'' @ ws4 @ bindings_str @ ws5 @ str ''>'' @ after \<and>
           layer_identifier U layer_name \<and>
           list_all isspace (ws1 @ ws2 @ ws3 @ ws4 @ ws5) \<and>
           list_all (\<lambda>c. \<not> brace c)
             (ws1 @ inner @ str ''bindings'' @ ws2 @ str ''='' @ ws3 @ str ''<'' @ ws4) \<and>
           bindings_str \<noteq> [] \<and> list_all (\<lambda>c. c \<noteq> 62) bindings_str"
proof -
  from candidate_match [OF assms] obtain before ws1 inner ws2 ws3 ws4 ws5 after where
    h: "strip_comments content =
             before @ layer_name @ ws1 @ str ''{'' @ inner @ str ''bindings'' @ ws2 @
             str ''='' @ ws3 @ str ''<'' @ ws4 @ bindings_str @ ws5 @ str ''>'' @ after"
      "layer_identifier U layer_name"
      "list_all isspace (ws1 @ ws2 @ ws3 @ ws4 @ ws5)"
      "list_all (\<lambda>c. \<not> brace c) inner"
      "bindings_str \<noteq> []" "list_all (\<lambda>c. c \<noteq> 62) bindings_str"
    by blast
  have lit: "list_all (\<lambda>c. \<not> brace c) (str ''bindings'')"
    "list_all (\<lambda>c. \<not> brace c) (str ''='')" "list_all (\<lambda>c. \<not> brace c) (str ''<'')"
    by (simp_all add: str_def brace_def)
  have "list_all (\<lambda>c. \<not> brace c)
             (ws1 @ inner @ str ''bindings'' @ ws2 @ str ''='' @ ws3 @ str ''<'' @ ws4)"
    using h(3,4) lit by (auto simp: list_all_iff dest: isspace_no_brace)
  with h show ?thesis by blast
qed

theorem layer_pattern_same_block_witness:
  "(str ''layer_1'', str ''&kp A'') \<in>
     set (candidates ascii_runtime (str ''layer_1 { bindings = <&kp A>; };'')) \<and>
   (\<exists>before ws1 inner ws2 ws3 ws4 ws5 after.
      strip_comments (str ''layer_1 { bindings = <&kp A>; };'') =
        before @ str ''layer_1'' @ ws1 @ str ''{'' @ inner @ str ''bindings'' @ ws2 @
        str ''='' @ ws3 @ str ''<'' @ ws4 @ str ''&kp A'' @ ws5 @ str ''>'' @ after \<and>
      list_all (\<lambda>c. \<not> brace c)
        (ws1 @ inner @ str ''bindings'' @ ws2 @ str ''='' @ ws3 @ str ''<'' @ ws4))"
proof -
  have m: "(str ''layer_1'', str ''&kp A'') \<in>
     set (candidates ascii_runtime (str ''layer_1 { bindings = <&kp A>; };''))"
    by code_simp
  from layer_pattern_same_block [OF m] show ?thesis using m by blast
qed

text \<open>
  The claim as first stated lets the whole match, captured text included, stay within one
  block. The captured text ends at the first \<^verbatim>\<open>>\<close>, whatever braces come before it:
  when the clause of \<^verbatim>\<open>layer_1\<close> lacks its \<^verbatim>\<open>>\<close>, the text captured for
  \<^verbatim>\<open>layer_1\<close> runs over the end of the block and takes the binding of
  \<^verbatim>\<open>layer_2\<close> with it.
\<close>

theorem capture_crosses_blocks_counterexample:
  "candidates ascii_runtime
     (str ''layer_1 { bindings = <&kp A }; layer_2 { bindings = <&kp B>; };'') =
     [(str ''layer_1'', str ''&kp A }; layer_2 { bindings = <&kp B'')] \<and>
   tokens (str ''&kp A }; layer_2 { bindings = <&kp B'') =
     [str ''&kp A }; layer_2 { bindings = <'', str ''&kp B'']"
  by code_simp

section \<open>Properties of the splice\<close>

subsection \<open>Splitting at a marker\<close>

lemma split_sep_none:
  "sep \<noteq> [] \<Longrightarrow> \<not> sublist sep s \<Longrightarrow> split_sep sep s = [s]"
proof (induction s)
  case Nil
  then show ?case by (simp add: split_sep.simps)
next
  case (Cons c cs)
  have np: "\<not> prefix sep (c # cs)" using Cons.prems(2) prefix_imp_sublist by blast
  have "\<not> sublist sep cs" using Cons.prems(2) by (meson sublist_Cons_right)
  then have "split_sep sep cs = [cs]" using Cons by simp
  then show ?case using np by (subst split_sep.simps) simp
qed

lemma split_sep_first:
  "sep \<noteq> [] \<Longrightarrow> \<not> sublist sep (pre @ butlast sep) \<Longrightarrow>
   split_sep sep (pre @ sep @ rest) = pre # split_sep sep rest"
proof (induction pre)
  case Nil
  then show ?case by (subst split_sep.simps) simp
next
  case (Cons c pre)
  have np: "\<not> prefix sep (c # pre @ sep @ rest)"
  proof
    assume "prefix sep (c # pre @ sep @ rest)"
    moreover have "c # pre @ sep @ rest = ((c # pre) @ butlast sep) @ (last sep # rest)"
      using Cons.prems(1) by simp
    ultimately have "prefix sep (((c # pre) @ butlast sep) @ (last sep # rest))"
      by simp
    moreover have "length sep \<le> length ((c # pre) @ butlast sep)" by simp
    ultimately have "prefix sep ((c # pre) @ butlast sep)"
      by (metis prefix_length_prefix prefixI)
    then show False using Cons.prems(2) prefix_imp_sublist by blast
  qed
  have "\<not> sublist sep (pre @ butlast sep)"
    using Cons.prems(2) by (metis append_Cons sublist_Cons_right)
  then have "split_sep sep (pre @ sep @ rest) = pre # split_sep sep rest"
    using Cons by simp
  then show ?case using np by (subst split_sep.simps) simp
qed

lemma butlast_shorter: "sep \<noteq> [] \<Longrightarrow> \<not> length sep \<le> length (butlast sep)"
  by (cases sep rule: rev_cases) auto

lemma first_occurrence:
  "sep \<noteq> [] \<Longrightarrow> sublist sep s \<Longrightarrow>
   \<exists>a b. s = a @ sep @ b \<and> \<not> sublist sep (a @ butlast sep)"
proof (induction s)
  case Nil
  then show ?case by simp
next
  case (Cons c cs)
  show ?case
  proof (cases "prefix sep (c # cs)")
    case True
    then obtain b where "c # cs = [] @ sep @ b" by (auto simp: prefix_def)
    moreover have "\<not> sublist sep ([] @ butlast sep)"
    proof
      assume "sublist sep ([] @ butlast sep)"
      then have "length sep \<le> length (butlast sep)"
        using sublist_length_le by fastforce
      then show False using Cons.prems(1) butlast_shorter by blast
    qed
    ultimately show ?thesis by blast
  next
    case False
    then have "sublist sep cs" using Cons.prems(2) by (simp add: sublist_Cons_right)
    then obtain a b where ab: "cs = a @ sep @ b" "\<not> sublist sep (a @ butlast sep)"
      using Cons by blast
    have "c # cs = ((c # a) @ butlast sep) @ (last sep # b)"
      using ab(1) Cons.prems(1) by simp
    then have "\<not> prefix sep ((c # a) @ butlast sep)"
      using False by (metis prefix_order.trans prefixI)
    then have "\<not> sublist sep ((c # a) @ butlast sep)"
      using ab(2) by (simp add: sublist_Cons_right)
    moreover have "c # cs = (c # a) @ sep @ b" using ab(1) by simp
    ultimately show ?thesis by blast
  qed
qed

lemma sublist_across:
  assumes "c \<notin> set sep"
  shows "sublist sep (a @ c # b) \<longleftrightarrow> sublist sep a \<or> sublist sep b"
proof
  assume "sublist sep (a @ c # b)"
  then consider "sublist sep a" | "sublist sep (c # b)"
    | xs1 xs2 where "sep = xs1 @ xs2" "suffix xs1 a" "prefix xs2 (c # b)"
    by (auto simp: sublist_append)
  then show "sublist sep a \<or> sublist sep b"
  proof cases
    case 1
    then show ?thesis by simp
  next
    case 2
    then have "prefix sep (c # b) \<or> sublist sep b" by (simp add: sublist_Cons_right)
    then show ?thesis using assms by (cases sep) (auto simp: prefix_Cons)
  next
    case 3
    show ?thesis
    proof (cases xs2)
      case Nil
      then show ?thesis using 3 by (auto intro: suffix_imp_sublist)
    next
      case (Cons d ds)
      then have "d = c" using 3(3) by simp
      then show ?thesis using assms 3(1) Cons by simp
    qed
  qed
next
  assume "sublist sep a \<or> sublist sep b"
  then show "sublist sep (a @ c # b)"
    by (auto simp: sublist_append sublist_Cons_right)
qed

lemma no_border:
  assumes "sep = c # t" "c \<notin> set t" "\<not> sublist sep x"
  shows "\<not> sublist sep (x @ butlast sep)"
proof
  assume "sublist sep (x @ butlast sep)"
  then consider "sublist sep (butlast sep)"
    | xs1 xs2 where "sep = xs1 @ xs2" "suffix xs1 x" "prefix xs2 (butlast sep)"
    using assms(3) by (auto simp: sublist_append)
  then show False
  proof cases
    case 1
    then have "length sep \<le> length (butlast sep)" using sublist_length_le by blast
    moreover have "sep \<noteq> []" using assms(1) by simp
    ultimately show False using butlast_shorter by blast
  next
    case 2
    show False
    proof (cases xs2)
      case Nil
      then show False using 2 assms(3) by (auto dest: suffix_imp_sublist)
    next
      case (Cons d ds)
      note xs2 = Cons
      show False
      proof (cases xs1)
        case Nil
        then have "prefix sep (butlast sep)" using 2 by simp
        then have "length sep \<le> length (butlast sep)" by (rule prefix_length_le)
        moreover have "sep \<noteq> []" using assms(1) by simp
        ultimately show False using butlast_shorter by blast
      next
        case (Cons e es)
        then have t: "t = es @ d # ds" using 2(1) xs2 assms(1) by simp
        then have "butlast sep = c # butlast t" using assms(1) by simp
        then have "d = c" using 2(3) xs2 by simp
        then show False using t assms(2) by simp
      qed
    qed
  qed
qed

text \<open>
  Each marker starts with its only \<^verbatim>\<open><\<close> and holds no newline, so an occurrence
  overlaps neither another occurrence nor the line breaks the splice inserts.
\<close>

lemma marker_shape:
  "start_marker = 60 # tl start_marker" "60 \<notin> set (tl start_marker)"
  "end_marker = 60 # tl end_marker" "60 \<notin> set (tl end_marker)"
  "10 \<notin> set end_marker" "start_marker \<noteq> []" "end_marker \<noteq> []"
  by code_simp+

lemma marker_cr: "13 \<notin> set end_marker" "13 \<notin> set start_marker"
  by code_simp+

lemma first_start:
  assumes "\<not> contains pre start_marker"
  shows "split_sep start_marker (pre @ start_marker @ rest) = pre # split_sep start_marker rest"
proof -
  have "\<not> sublist start_marker (pre @ butlast start_marker)"
    using no_border [OF marker_shape(1,2)] assms by (simp add: contains_def)
  then show ?thesis using marker_shape(6) by (rule split_sep_first [rotated])
qed

lemma first_end:
  assumes "\<not> contains x end_marker"
  shows "split_sep end_marker (x @ end_marker @ rest) = x # split_sep end_marker rest"
proof -
  have "\<not> sublist end_marker (x @ butlast end_marker)"
    using no_border [OF marker_shape(3,4)] assms by (simp add: contains_def)
  then show ?thesis using marker_shape(7) by (rule split_sep_first [rotated])
qed

lemma split_sep_hd:
  assumes "sep \<noteq> []"
  shows "\<exists>a rest. split_sep sep s = a # rest \<and> \<not> sublist sep a"
proof (cases "sublist sep s")
  case True
  then obtain a b where ab: "s = a @ sep @ b" "\<not> sublist sep (a @ butlast sep)"
    using first_occurrence [OF assms] by blast
  then have "split_sep sep s = a # split_sep sep b"
    using split_sep_first [OF assms] by simp
  moreover have "\<not> sublist sep a" using ab(2) by (auto simp: sublist_append)
  ultimately show ?thesis by blast
next
  case False
  then show ?thesis using split_sep_none [OF assms] by simp
qed

lemma up_to_end_clean: "\<not> contains (up_to_end post) end_marker"
  using split_sep_hd [OF marker_shape(7), of post] by (auto simp: up_to_end_def contains_def)

lemma up_to_end_id: "\<not> contains post end_marker \<Longrightarrow> up_to_end post = post"
  using split_sep_none [OF marker_shape(7), of post] by (simp add: up_to_end_def contains_def)

lemma contains_mid: "contains (a @ m @ b) m"
  by (auto simp: contains_def sublist_def)

text \<open>
  The new text in general: when the first start marker comes before the first end marker,
  it keeps the text before that start marker and the text between the first end marker
  and the next one.
\<close>

lemma new_text_general:
  assumes s: "\<not> contains pre start_marker"
    and e: "\<not> contains (pre @ start_marker @ mid) end_marker"
  shows "new_text (pre @ start_marker @ mid @ end_marker @ post) keymap_content =
    Inr (pre @ start_marker @ [10] @ keymap_content @ [10] @ end_marker @ up_to_end post)"
proof -
  let ?c = "pre @ start_marker @ mid @ end_marker @ post"
  have b: "getitem (split_sep start_marker ?c) 0 = Inr pre"
    using first_start [OF s] by (simp add: getitem_def)
  have "split_sep end_marker ((pre @ start_marker @ mid) @ end_marker @ post) =
      (pre @ start_marker @ mid) # split_sep end_marker post"
    by (rule first_end [OF e])
  moreover obtain a rest where "split_sep end_marker post = a # rest"
    using split_sep_hd [OF marker_shape(7), of post] by blast
  ultimately have a: "getitem (split_sep end_marker ?c) 1 = Inr (up_to_end post)"
    by (simp add: getitem_def up_to_end_def)
  show ?thesis
    unfolding new_text_def using b a by (simp add: bind_err_def)
qed

subsection \<open>Line ends\<close>

lemma un_no_cr: "13 \<notin> set (universal_newlines t)"
  by (induction t rule: universal_newlines.induct) auto

lemma un_id: "13 \<notin> set t \<Longrightarrow> universal_newlines t = t"
  by (induction t rule: universal_newlines.induct) auto

lemma un_Cons: "c \<noteq> 13 \<Longrightarrow> universal_newlines (c # t) = c # universal_newlines t"
  by (cases t) auto

lemma un_append:
  "x = [] \<or> last x \<noteq> 13 \<Longrightarrow>
   universal_newlines (x @ y) = universal_newlines x @ universal_newlines y"
proof (induction x rule: universal_newlines.induct)
  case 1
  then show ?case by simp
next
  case (2 c)
  then show ?case by (simp add: un_Cons)
next
  case (3 c d cs)
  then show ?case by (cases cs) (auto split: if_splits)
qed

lemma wn_append [simp]:
  "write_newlines U (x @ y) = write_newlines U x @ write_newlines U y"
  by (simp add: write_newlines_def)

lemma wn_last:
  "x \<noteq> [] \<Longrightarrow> last x \<noteq> 13 \<Longrightarrow>
   write_newlines U x \<noteq> [] \<and> last (write_newlines U x) \<noteq> 13"
  by (induction x rule: rev_induct) (auto simp: write_newlines_def)

lemma un_wn_id: "13 \<notin> set t \<Longrightarrow> universal_newlines (write_newlines U t) = t"
proof (induction t)
  case Nil
  then show ?case by (simp add: write_newlines_def)
next
  case (Cons c t)
  then have "universal_newlines (write_newlines U t) = t" by simp
  then show ?case
    using Cons.prems by (cases "write_newlines U t") (auto simp: write_newlines_def un_Cons)
qed

text \<open>A text without line ends is found after a translation only where it was before.\<close>

lemma prefix_un:
  "10 \<notin> set m \<Longrightarrow> 13 \<notin> set m \<Longrightarrow> prefix m (universal_newlines t) \<Longrightarrow> prefix m t"
proof (induction t arbitrary: m rule: universal_newlines.induct)
  case 1
  then show ?case by simp
next
  case (2 c)
  then show ?case by (cases m) (auto split: if_splits)
next
  case (3 c d cs)
  then show ?case by (cases m) (auto split: if_splits)
qed

lemma sublist_un:
  "10 \<notin> set m \<Longrightarrow> 13 \<notin> set m \<Longrightarrow> sublist m (universal_newlines t) \<Longrightarrow> sublist m t"
proof (induction t rule: universal_newlines.induct)
  case 1
  then show ?case by simp
next
  case (2 c)
  then show ?case by (cases m) (auto simp: sublist_Cons_right split: if_splits)
next
  case (3 c d cs)
  have p: "prefix m (universal_newlines (c # d # cs)) \<Longrightarrow> sublist m (c # d # cs)"
    using prefix_un [OF 3(4,5)] by blast
  show ?case
  proof (cases "prefix m (universal_newlines (c # d # cs))")
    case True
    then show ?thesis by (rule p)
  next
    case False
    then show ?thesis
      using 3 by (auto simp: sublist_Cons_right split: if_splits)
  qed
qed

lemma prefix_wn:
  "10 \<notin> set m \<Longrightarrow> 13 \<notin> set m \<Longrightarrow> prefix m (write_newlines U t) \<Longrightarrow> prefix m t"
proof (induction t arbitrary: m)
  case Nil
  then show ?case by (simp add: write_newlines_def)
next
  case (Cons c t)
  show ?case
  proof (cases m)
    case Nil
    then show ?thesis by simp
  next
    case (Cons e es)
    then show ?thesis
      using Cons.prems Cons.IH [of es]
      by (auto simp: write_newlines_def split: if_splits)
  qed
qed

lemma sublist_wn:
  "10 \<notin> set m \<Longrightarrow> 13 \<notin> set m \<Longrightarrow> sublist m (write_newlines U t) \<Longrightarrow> sublist m t"
proof (induction t)
  case Nil
  then show ?case by (simp add: write_newlines_def)
next
  case (Cons c t)
  show ?case
  proof (cases "prefix m (write_newlines U (c # t))")
    case True
    then show ?thesis using prefix_wn [OF Cons.prems(1,2)] by blast
  next
    case False
    have w: "write_newlines U (c # t) = (if c = 10 \<and> crlf U then [13, 10] else [c]) @ write_newlines U t"
      by (simp add: write_newlines_def)
    have "sublist m (write_newlines U t)"
    proof (cases "c = 10 \<and> crlf U")
      case True
      then have "sublist m (13 # 10 # write_newlines U t)"
        using Cons.prems(3) w by simp
      then have "sublist m (10 # write_newlines U t)"
        using False True w by (simp add: sublist_Cons_right)
      then show ?thesis
        using Cons.prems(1) by (cases m) (auto simp: sublist_Cons_right)
    next
      case c: False
      then have "sublist m (c # write_newlines U t)"
        using Cons.prems(3) w by auto
      then show ?thesis
        using False c w by (auto simp: sublist_Cons_right)
    qed
    then show ?thesis using Cons by (auto simp: sublist_Cons_right)
  qed
qed

subsection \<open>Reading and writing the destination\<close>

lemma write_text_ok:
  "fs path = Regular None stored \<Longrightarrow> encodable U text \<Longrightarrow>
   write_text U fs path text = (fs(path := Regular None (write_newlines U text)), None)"
  by (simp add: write_text_def)

lemma write_text_unencodable:
  "fs path = Regular None stored \<Longrightarrow> \<not> encodable U text \<Longrightarrow>
   write_text U fs path text = (fs(path := Regular None []), Some UnicodeEncodeError)"
  by (simp add: write_text_def)

lemma write_text_refused:
  "fs path = Regular (Some e) stored \<Longrightarrow> write_text U fs path text = (fs, Some e)"
  by (simp add: write_text_def)

lemma update_readme_regular:
  assumes "fs readme_path = Regular wr stored"
    and "contains (universal_newlines stored) start_marker"
    and "contains (universal_newlines stored) end_marker"
    and "new_text (universal_newlines stored) keymap_content = Inr new_content"
  shows "update_readme U fs readme_path keymap_content =
    (case write_text U fs readme_path new_content of
       (fs', Some e) \<Rightarrow> (fs', [], Inl e)
     | (fs', None) \<Rightarrow> (fs', [], Inr ()))"
  using assms by (simp add: update_readme_def path_exists_def read_text_def)

text \<open>
  The splice in general: when the first start marker of the text read comes before its
  first end marker, the function reaches the write with the text before that start marker
  and the text between the first end marker and the next one.
\<close>

lemma update_readme_reaches_write:
  assumes f: "fs readme_path = Regular wr stored"
    and c: "universal_newlines stored = pre @ start_marker @ mid @ end_marker @ post"
    and s: "\<not> contains pre start_marker"
    and e: "\<not> contains (pre @ start_marker @ mid) end_marker"
  shows "update_readme U fs readme_path keymap_content =
    (case write_text U fs readme_path
        (pre @ start_marker @ [10] @ keymap_content @ [10] @ end_marker @ up_to_end post) of
       (fs', Some e) \<Rightarrow> (fs', [], Inl e)
     | (fs', None) \<Rightarrow> (fs', [], Inr ()))"
proof -
  have c1: "contains (universal_newlines stored) start_marker"
    unfolding c by (rule contains_mid)
  have c2: "contains (universal_newlines stored) end_marker"
    unfolding c using contains_mid [of "pre @ start_marker @ mid" end_marker post] by simp
  have n: "new_text (universal_newlines stored) keymap_content =
      Inr (pre @ start_marker @ [10] @ keymap_content @ [10] @ end_marker @ up_to_end post)"
    unfolding c by (rule new_text_general [OF s e])
  show ?thesis
    using update_readme_regular [of fs readme_path wr stored keymap_content _ U] f c1 c2 n
    by blast
qed

lemma update_readme_general:
  assumes f: "fs readme_path = Regular None stored"
    and c: "universal_newlines stored = pre @ start_marker @ mid @ end_marker @ post"
    and s: "\<not> contains pre start_marker"
    and e: "\<not> contains (pre @ start_marker @ mid) end_marker"
    and w: "encodable U
      (pre @ start_marker @ [10] @ keymap_content @ [10] @ end_marker @ up_to_end post)"
  shows "update_readme U fs readme_path keymap_content =
    (fs(readme_path := Regular None (write_newlines U
       (pre @ start_marker @ [10] @ keymap_content @ [10] @ end_marker @ up_to_end post))),
     [], Inr ())"
  using update_readme_reaches_write [of fs readme_path None stored pre mid post U keymap_content]
    write_text_ok [of fs readme_path stored U] f c s e w
  by simp

text \<open>
  A text that cannot be encoded is found out after the file was opened and emptied: the
  file stays empty and the exception leaves the function.
\<close>

lemma update_readme_unencodable:
  assumes f: "fs readme_path = Regular None stored"
    and c: "universal_newlines stored = pre @ start_marker @ mid @ end_marker @ post"
    and s: "\<not> contains pre start_marker"
    and e: "\<not> contains (pre @ start_marker @ mid) end_marker"
    and w: "\<not> encodable U
      (pre @ start_marker @ [10] @ keymap_content @ [10] @ end_marker @ up_to_end post)"
  shows "update_readme U fs readme_path keymap_content =
    (fs(readme_path := Regular None []), [], Inl UnicodeEncodeError)"
  using update_readme_reaches_write [of fs readme_path None stored pre mid post U keymap_content]
    write_text_unencodable [of fs readme_path stored U] f c s e w
  by simp

lemma update_readme_refused:
  assumes f: "fs readme_path = Regular (Some err) stored"
    and c: "universal_newlines stored = pre @ start_marker @ mid @ end_marker @ post"
    and s: "\<not> contains pre start_marker"
    and e: "\<not> contains (pre @ start_marker @ mid) end_marker"
  shows "update_readme U fs readme_path keymap_content = (fs, [], Inl err)"
  using update_readme_reaches_write
      [of fs readme_path "Some err" stored pre mid post U keymap_content]
    write_text_refused [of fs readme_path err stored U] f c s e
  by simp

text \<open>The generated markdown ends with a line break: its last line is empty.\<close>

lemma join_snoc_empty: "xs \<noteq> [] \<Longrightarrow> join sep (xs @ [[]]) = join sep xs @ sep"
  by (induction sep xs rule: join.induct) auto

lemma last_blocks:
  "last (x # concat (map (\<lambda>block. [block, []]) blocks)) = (if blocks = [] then x else [])"
  by (cases blocks rule: rev_cases) auto

lemma last_blocks_nonempty:
  "blocks \<noteq> [] \<Longrightarrow> last (concat (map (\<lambda>block. [block, []]) blocks)) = []"
  by (cases blocks rule: rev_cases) auto

lemma join_last_empty:
  assumes "last (x # y # ys) = []"
  shows "\<exists>m. join sep (x # y # ys) = m @ sep"
proof -
  have "x # y # ys = butlast (x # y # ys) @ [[]]"
    using assms by (metis append_butlast_last_id list.distinct(1))
  moreover have "butlast (x # y # ys) \<noteq> []" by simp
  ultimately show ?thesis using join_snoc_empty by metis
qed

lemma generate_markdown_ends_newline:
  assumes "generate_markdown U fs keymap_path = Inr markdown"
  shows "\<exists>m. markdown = m @ [10]"
  using assms unfolding generate_markdown_def bind_err_def
  by (auto split: sum.splits simp del: join.simps simp: last_blocks last_blocks_nonempty intro!: join_last_empty)

subsection \<open>What the splice keeps and replaces\<close>

text \<open>
  Claim C4, as amended. Take a destination that is a text file the run can read and write,
  whose new text can be encoded, and in which the end marker occurs exactly once, after the
  first occurrence of the start marker. When the file holds no carriage return and the
  platform writes line ends as they are, the splice leaves every character before that
  start marker and after the end marker unchanged, keeps both markers, and replaces what
  was between them by a line break, the generated markdown and a line break. In general
  the same holds of the text as it is read (\<^verbatim>\<open>\r\n\<close> and \<^verbatim>\<open>\r\<close> read as \<^verbatim>\<open>\n\<close>)
  and as it is handed to the write (\<^verbatim>\<open>\n\<close> written as the platform's line end). The
  generated markdown itself ends with a line break, so an empty line stands before the end
  marker.
\<close>

theorem update_readme_splice:
  "(fs readme_path = Regular None (pre @ start_marker @ mid @ end_marker @ post) \<and>
    13 \<notin> set (pre @ start_marker @ mid @ end_marker @ post) \<and> \<not> crlf U \<and>
    \<not> contains pre start_marker \<and> \<not> contains (pre @ start_marker @ mid) end_marker \<and>
    \<not> contains post end_marker \<and>
    encodable U (pre @ start_marker @ [10] @ keymap_content @ [10] @ end_marker @ post) \<longrightarrow>
      update_readme U fs readme_path keymap_content =
        (fs(readme_path := Regular None
              (pre @ start_marker @ [10] @ keymap_content @ [10] @ end_marker @ post)),
         [], Inr ())) \<and>
   (fs readme_path = Regular None stored \<and>
    universal_newlines stored = pre @ start_marker @ mid @ end_marker @ post \<and>
    \<not> contains pre start_marker \<and> \<not> contains (pre @ start_marker @ mid) end_marker \<and>
    \<not> contains post end_marker \<and>
    encodable U (pre @ start_marker @ [10] @ keymap_content @ [10] @ end_marker @ post) \<longrightarrow>
      update_readme U fs readme_path keymap_content =
        (fs(readme_path := Regular None (write_newlines U
              (pre @ start_marker @ [10] @ keymap_content @ [10] @ end_marker @ post))),
         [], Inr ())) \<and>
   (generate_markdown U fs keymap_path = Inr keymap_content \<longrightarrow>
      (\<exists>m. keymap_content = m @ [10]))"
proof -
  have g: "update_readme U fs readme_path keymap_content =
        (fs(readme_path := Regular None (write_newlines U
              (pre @ start_marker @ [10] @ keymap_content @ [10] @ end_marker @ post))),
         [], Inr ())"
    if "fs readme_path = Regular None stored"
      "universal_newlines stored = pre @ start_marker @ mid @ end_marker @ post"
      "\<not> contains pre start_marker" "\<not> contains (pre @ start_marker @ mid) end_marker"
      "\<not> contains post end_marker"
      "encodable U (pre @ start_marker @ [10] @ keymap_content @ [10] @ end_marker @ post)"
    for stored
    using update_readme_general [of fs readme_path stored pre mid post U keymap_content] that
    by (simp add: up_to_end_id)
  have l: "update_readme U fs readme_path keymap_content =
        (fs(readme_path := Regular None
              (pre @ start_marker @ [10] @ keymap_content @ [10] @ end_marker @ post)),
         [], Inr ())"
    if "fs readme_path = Regular None (pre @ start_marker @ mid @ end_marker @ post)"
      "13 \<notin> set (pre @ start_marker @ mid @ end_marker @ post)" "\<not> crlf U"
      "\<not> contains pre start_marker" "\<not> contains (pre @ start_marker @ mid) end_marker"
      "\<not> contains post end_marker"
      "encodable U (pre @ start_marker @ [10] @ keymap_content @ [10] @ end_marker @ post)"
  proof -
    have "write_newlines U t = t" for t
      using that(3) by (induction t) (auto simp: write_newlines_def)
    then show ?thesis
      using g [of "pre @ start_marker @ mid @ end_marker @ post"] that un_id [OF that(2)]
      by simp
  qed
  show ?thesis
    using g l generate_markdown_ends_newline [of U fs keymap_path keymap_content]
    by blast
qed

text \<open>
  Two runs: a file with \<^verbatim>\<open>\n\<close> line ends, kept character by character outside the
  markers, and a file with \<^verbatim>\<open>\r\n\<close> line ends, of which the text read is kept and
  written back with \<^verbatim>\<open>\n\<close>.
\<close>

theorem update_readme_splice_witness:
  "sample_files (str ''# Corne '' @ start_marker @ str ''old'' @ end_marker @ str '' bye'')
     (str ''README.md'') =
     Regular None (str ''# Corne '' @ start_marker @ str ''old'' @ end_marker @ str '' bye'') \<and>
   13 \<notin> set (str ''# Corne '' @ start_marker @ str ''old'' @ end_marker @ str '' bye'') \<and>
   \<not> crlf ascii_runtime \<and>
   \<not> contains (str ''# Corne '') start_marker \<and>
   \<not> contains (str ''# Corne '' @ start_marker @ str ''old'') end_marker \<and>
   \<not> contains (str '' bye'') end_marker \<and>
   encodable ascii_runtime
     (str ''# Corne '' @ start_marker @ [10] @ sample_markdown @ [10] @ end_marker @
      str '' bye'') \<and>
   update_readme ascii_runtime
     (sample_files (str ''# Corne '' @ start_marker @ str ''old'' @ end_marker @ str '' bye''))
     (str ''README.md'') sample_markdown =
     ((sample_files (str ''# Corne '' @ start_marker @ str ''old'' @ end_marker @ str '' bye''))
        (str ''README.md'' := Regular None
           (str ''# Corne '' @ start_marker @ [10] @ sample_markdown @ [10] @ end_marker @
            str '' bye'')),
      [], Inr ()) \<and>
   sample_files (str ''# Corne'' @ [13, 10] @ start_marker @ str ''old'' @ end_marker @ [13, 10])
     (str ''README.md'') =
     Regular None (str ''# Corne'' @ [13, 10] @ start_marker @ str ''old'' @ end_marker @ [13, 10]) \<and>
   universal_newlines
     (str ''# Corne'' @ [13, 10] @ start_marker @ str ''old'' @ end_marker @ [13, 10]) =
     (str ''# Corne'' @ [10]) @ start_marker @ str ''old'' @ end_marker @ [10] \<and>
   \<not> contains (str ''# Corne'' @ [10]) start_marker \<and>
   \<not> contains ((str ''# Corne'' @ [10]) @ start_marker @ str ''old'') end_marker \<and>
   \<not> contains [10] end_marker \<and>
   encodable ascii_runtime
     ((str ''# Corne'' @ [10]) @ start_marker @ [10] @ sample_markdown @ [10] @ end_marker @
      [10]) \<and>
   update_readme ascii_runtime
     (sample_files (str ''# Corne'' @ [13, 10] @ start_marker @ str ''old'' @ end_marker @ [13, 10]))
     (str ''README.md'') sample_markdown =
     ((sample_files
         (str ''# Corne'' @ [13, 10] @ start_marker @ str ''old'' @ end_marker @ [13, 10]))
        (str ''README.md'' := Regular None (write_newlines ascii_runtime
           ((str ''# Corne'' @ [10]) @ start_marker @ [10] @ sample_markdown @ [10] @
            end_marker @ [10]))),
      [], Inr ()) \<and>
   generate_markdown ascii_runtime (sample_files []) (str ''corne.keymap'') =
     Inr sample_markdown \<and>
   (\<exists>m. sample_markdown = m @ [10])"
proof -
  let ?lf = "str ''# Corne '' @ start_marker @ str ''old'' @ end_marker @ str '' bye''"
  let ?crlf = "str ''# Corne'' @ [13, 10] @ start_marker @ str ''old'' @ end_marker @ [13, 10]"
  have f: "sample_files ?lf (str ''README.md'') = Regular None ?lf"
    "sample_files ?crlf (str ''README.md'') = Regular None ?crlf"
    by (simp_all add: sample_files_def)
  have r: "\<not> crlf ascii_runtime" by (simp add: ascii_runtime_def)
  have h: "13 \<notin> set ?lf"
    "\<not> contains (str ''# Corne '') start_marker"
    "\<not> contains (str ''# Corne '' @ start_marker @ str ''old'') end_marker"
    "\<not> contains (str '' bye'') end_marker"
    "encodable ascii_runtime
       (str ''# Corne '' @ start_marker @ [10] @ sample_markdown @ [10] @ end_marker @
        str '' bye'')"
    by code_simp+
  have k: "universal_newlines ?crlf =
      (str ''# Corne'' @ [10]) @ start_marker @ str ''old'' @ end_marker @ [10]"
    "\<not> contains (str ''# Corne'' @ [10]) start_marker"
    "\<not> contains ((str ''# Corne'' @ [10]) @ start_marker @ str ''old'') end_marker"
    "\<not> contains [10] end_marker"
    "encodable ascii_runtime
       ((str ''# Corne'' @ [10]) @ start_marker @ [10] @ sample_markdown @ [10] @ end_marker @
        [10])"
    by code_simp+
  have g: "generate_markdown ascii_runtime (sample_files []) (str ''corne.keymap'') =
      Inr sample_markdown"
    by code_simp
  have 1: "update_readme ascii_runtime (sample_files ?lf) (str ''README.md'') sample_markdown =
      ((sample_files ?lf)(str ''README.md'' := Regular None
         (str ''# Corne '' @ start_marker @ [10] @ sample_markdown @ [10] @ end_marker @
          str '' bye'')), [], Inr ())"
    using f(1) r h
      update_readme_splice [where fs = "sample_files ?lf" and readme_path = "str ''README.md''"
        and pre = "str ''# Corne ''" and mid = "str ''old''" and post = "str '' bye''"
        and U = ascii_runtime and keymap_content = sample_markdown]
    by blast
  have 2: "update_readme ascii_runtime (sample_files ?crlf) (str ''README.md'') sample_markdown =
      ((sample_files ?crlf)(str ''README.md'' := Regular None (write_newlines ascii_runtime
         ((str ''# Corne'' @ [10]) @ start_marker @ [10] @ sample_markdown @ [10] @
          end_marker @ [10]))), [], Inr ())"
    using f(2) k
      update_readme_splice [where fs = "sample_files ?crlf" and readme_path = "str ''README.md''"
        and pre = "str ''# Corne'' @ [10]" and mid = "str ''old''" and post = "[10]"
        and U = ascii_runtime and keymap_content = sample_markdown and stored = ?crlf]
    by blast
  have 3: "\<exists>m. sample_markdown = m @ [10]"
    using g
      update_readme_splice [where fs = "sample_files []" and U = ascii_runtime
        and keymap_content = sample_markdown and keymap_path = "str ''corne.keymap''"]
    by blast
  show ?thesis
    by (intro conjI f h r k g 1 2 3)
qed

text \<open>
  The claim as first stated covers every file that contains both markers. With a second
  end marker the text after it, and that marker, are lost: only the text between the two
  end markers is kept.
\<close>

theorem second_end_marker_counterexample:
  "contains (start_marker @ str ''a'' @ end_marker @ str ''b'' @ end_marker @ str ''c'')
     start_marker \<and>
   contains (start_marker @ str ''a'' @ end_marker @ str ''b'' @ end_marker @ str ''c'')
     end_marker \<and>
   update_readme ascii_runtime
     (sample_files (start_marker @ str ''a'' @ end_marker @ str ''b'' @ end_marker @ str ''c''))
     (str ''README.md'') (str ''M'') =
   ((sample_files (start_marker @ str ''a'' @ end_marker @ str ''b'' @ end_marker @ str ''c''))
      (str ''README.md'' := Regular None
         (start_marker @ [10] @ str ''M'' @ [10] @ end_marker @ str ''b'')),
    [], Inr ())"
proof -
  let ?c = "start_marker @ str ''a'' @ end_marker @ str ''b'' @ end_marker @ str ''c''"
  have c: "contains ?c start_marker" "contains ?c end_marker"
    by code_simp+
  have h: "universal_newlines ?c =
      [] @ start_marker @ str ''a'' @ end_marker @ (str ''b'' @ end_marker @ str ''c'')"
    "\<not> contains [] start_marker" "\<not> contains ([] @ start_marker @ str ''a'') end_marker"
    "encodable ascii_runtime
       ([] @ start_marker @ [10] @ str ''M'' @ [10] @ end_marker @
        up_to_end (str ''b'' @ end_marker @ str ''c''))"
    by code_simp+
  have w: "write_newlines ascii_runtime
       ([] @ start_marker @ [10] @ str ''M'' @ [10] @ end_marker @
        up_to_end (str ''b'' @ end_marker @ str ''c'')) =
     start_marker @ [10] @ str ''M'' @ [10] @ end_marker @ str ''b''"
    by code_simp
  have f: "sample_files ?c (str ''README.md'') = Regular None ?c"
    by (simp add: sample_files_def)
  have "update_readme ascii_runtime (sample_files ?c) (str ''README.md'') (str ''M'') =
      ((sample_files ?c)(str ''README.md'' := Regular None (write_newlines ascii_runtime
         ([] @ start_marker @ [10] @ str ''M'' @ [10] @ end_marker @
          up_to_end (str ''b'' @ end_marker @ str ''c'')))), [], Inr ())"
    using f h
    by (intro update_readme_general
        [where stored = ?c and mid = "str ''a''" and post = "str ''b'' @ end_marker @ str ''c''"])
  then have "update_readme ascii_runtime (sample_files ?c) (str ''README.md'') (str ''M'') =
      ((sample_files ?c)(str ''README.md'' := Regular None
         (start_marker @ [10] @ str ''M'' @ [10] @ end_marker @ str ''b'')), [], Inr ())"
    by (simp only: w)
  then show ?thesis using c by blast
qed

subsection \<open>Splicing twice\<close>

lemma end_not_in_new:
  assumes e: "\<not> contains (pre @ start_marker @ mid) end_marker"
    and m: "\<not> contains keymap_content end_marker"
  shows "\<not> contains (pre @ start_marker @ [10] @ keymap_content @ [10]) end_marker"
proof -
  have "\<not> sublist end_marker (pre @ start_marker)"
  proof
    assume "sublist end_marker (pre @ start_marker)"
    then obtain ps ss where "pre @ start_marker = ps @ end_marker @ ss"
      by (auto simp: sublist_def)
    then have "pre @ start_marker @ mid = ps @ end_marker @ (ss @ mid)"
      by (metis append.assoc)
    then show False using e unfolding contains_def sublist_def by blast
  qed
  moreover have "\<not> sublist end_marker (keymap_content @ 10 # [])"
    using sublist_across [OF marker_shape(5), of keymap_content "[]"] m marker_shape(7)
    unfolding contains_def by simp
  ultimately have "\<not> sublist end_marker ((pre @ start_marker) @ 10 # (keymap_content @ 10 # []))"
    using sublist_across [OF marker_shape(5), of "pre @ start_marker" "keymap_content @ 10 # []"]
    by blast
  then show ?thesis by (simp add: contains_def)
qed

lemma second_text:
  assumes c: "universal_newlines stored = pre @ start_marker @ mid @ end_marker @ post"
    and e: "\<not> contains (pre @ start_marker @ mid) end_marker"
    and m: "\<not> contains keymap_content end_marker"
  shows "\<exists>mid2. universal_newlines (write_newlines U
      (pre @ start_marker @ [10] @ keymap_content @ [10] @ end_marker @ up_to_end post)) =
      pre @ start_marker @ mid2 @ end_marker @ up_to_end post \<and>
    \<not> contains (pre @ start_marker @ mid2) end_marker"
proof -
  let ?a = "up_to_end post"
  let ?Z = "universal_newlines (write_newlines U (keymap_content @ [10]))"
  have cr: "13 \<notin> set (pre @ start_marker @ mid @ end_marker @ post)"
    using un_no_cr [of stored] unfolding c .
  have "\<exists>rest. post = ?a @ rest"
  proof (cases "sublist end_marker post")
    case True
    then obtain a b where ab: "post = a @ end_marker @ b"
      "\<not> sublist end_marker (a @ butlast end_marker)"
      using first_occurrence [OF marker_shape(7)] by blast
    then have "split_sep end_marker post = a # split_sep end_marker b"
      using split_sep_first [OF marker_shape(7)] by simp
    then show ?thesis using ab(1) by (simp add: up_to_end_def)
  next
    case False
    then show ?thesis using up_to_end_id [of post] by (simp add: contains_def)
  qed
  then obtain rest where "post = ?a @ rest" by blast
  then have "set ?a \<subseteq> set post" by (metis set_append sup_ge1)
  then have cra: "13 \<notin> set ?a" using cr by auto
  have crs: "13 \<notin> set (pre @ start_marker)" "13 \<notin> set (end_marker @ ?a)"
    using cr cra by auto
  have l1: "write_newlines U (pre @ start_marker) \<noteq> [] \<and>
      last (write_newlines U (pre @ start_marker)) \<noteq> 13"
  proof (intro wn_last)
    show "pre @ start_marker \<noteq> []" using marker_shape(6) by simp
    have "last (pre @ start_marker) \<in> set (pre @ start_marker)"
      using marker_shape(6) by (intro last_in_set) simp
    then show "last (pre @ start_marker) \<noteq> 13" using crs(1) by metis
  qed
  have l2: "write_newlines U [10] \<noteq> [] \<and> last (write_newlines U [10]) \<noteq> 13"
    by (intro wn_last) auto
  have l3: "write_newlines U (keymap_content @ [10]) \<noteq> [] \<and>
      last (write_newlines U (keymap_content @ [10])) \<noteq> 13"
    by (intro wn_last) auto
  let ?A = "write_newlines U (pre @ start_marker)"
  let ?B = "write_newlines U [10]"
  let ?C = "write_newlines U (keymap_content @ [10])"
  let ?D = "write_newlines U (end_marker @ ?a)"
  have "write_newlines U
      (pre @ start_marker @ [10] @ keymap_content @ [10] @ end_marker @ ?a) =
      ?A @ (?B @ (?C @ ?D))"
    by (simp only: wn_append append_assoc)
  then have "universal_newlines (write_newlines U
      (pre @ start_marker @ [10] @ keymap_content @ [10] @ end_marker @ ?a)) =
      universal_newlines (?A @ (?B @ (?C @ ?D)))"
    by (rule arg_cong)
  also have "\<dots> = universal_newlines ?A @ universal_newlines (?B @ (?C @ ?D))"
    using un_append [of ?A] l1 by blast
  also have "universal_newlines (?B @ (?C @ ?D)) =
      universal_newlines ?B @ universal_newlines (?C @ ?D)"
    using un_append [of ?B] l2 by blast
  also have "universal_newlines (?C @ ?D) = ?Z @ universal_newlines ?D"
    using un_append [of ?C] l3 by blast
  also have "universal_newlines ?A = pre @ start_marker" by (rule un_wn_id [OF crs(1)])
  also have "universal_newlines ?B = [10]" by (rule un_wn_id) simp
  also have "universal_newlines ?D = end_marker @ ?a" by (rule un_wn_id [OF crs(2)])
  finally have eq: "universal_newlines (write_newlines U
      (pre @ start_marker @ [10] @ keymap_content @ [10] @ end_marker @ ?a)) =
      pre @ start_marker @ (10 # ?Z) @ end_marker @ ?a"
    by simp
  have "\<not> sublist end_marker (keymap_content @ 10 # [])"
    using sublist_across [OF marker_shape(5), of keymap_content "[]"] m marker_shape(7)
    unfolding contains_def by simp
  then have z: "\<not> sublist end_marker ?Z"
    using sublist_un [of end_marker] sublist_wn [of end_marker] marker_shape(5) marker_cr
    by (metis append_Cons append_Nil)
  have "\<not> sublist end_marker (pre @ start_marker)"
  proof
    assume "sublist end_marker (pre @ start_marker)"
    then obtain ps ss where "pre @ start_marker = ps @ end_marker @ ss"
      by (auto simp: sublist_def)
    then have "pre @ start_marker @ mid = ps @ end_marker @ (ss @ mid)"
      by (metis append.assoc)
    then show False using e unfolding contains_def sublist_def by blast
  qed
  then have "\<not> sublist end_marker ((pre @ start_marker) @ 10 # ?Z)"
    using z sublist_across [OF marker_shape(5), of "pre @ start_marker" ?Z] by blast
  then have "\<not> contains (pre @ start_marker @ (10 # ?Z)) end_marker"
    by (simp add: contains_def)
  then show ?thesis using eq by blast
qed

text \<open>
  Claim C5, as amended. For every destination file whose first end marker comes after its
  first start marker (in the text as read), and every generated markdown that does not
  contain the end marker, the second splice leaves the file as the first one left it,
  whether the writes succeed or not; when they succeed, both runs return normally and
  print nothing.
\<close>

theorem update_readme_idempotent:
  "fs readme_path = Regular wr stored \<and>
   universal_newlines stored = pre @ start_marker @ mid @ end_marker @ post \<and>
   \<not> contains pre start_marker \<and> \<not> contains (pre @ start_marker @ mid) end_marker \<and>
   \<not> contains keymap_content end_marker \<longrightarrow>
     fst (update_readme U (fst (update_readme U fs readme_path keymap_content))
            readme_path keymap_content) =
       fst (update_readme U fs readme_path keymap_content) \<and>
     (wr = None \<and>
      encodable U (pre @ start_marker @ [10] @ keymap_content @ [10] @ end_marker @
        up_to_end post) \<longrightarrow>
        (\<exists>fs1. update_readme U fs readme_path keymap_content = (fs1, [], Inr ()) \<and>
               update_readme U fs1 readme_path keymap_content = (fs1, [], Inr ())))"
proof (intro impI, elim conjE)
  assume f: "fs readme_path = Regular wr stored"
    and c: "universal_newlines stored = pre @ start_marker @ mid @ end_marker @ post"
    and s: "\<not> contains pre start_marker"
    and e: "\<not> contains (pre @ start_marker @ mid) end_marker"
    and m: "\<not> contains keymap_content end_marker"
  let ?new = "pre @ start_marker @ [10] @ keymap_content @ [10] @ end_marker @ up_to_end post"
  let ?fs1 = "fs(readme_path := Regular None (write_newlines U ?new))"
  have ok: "update_readme U fs readme_path keymap_content = (?fs1, [], Inr ()) \<and>
      update_readme U ?fs1 readme_path keymap_content = (?fs1, [], Inr ())"
    if wr: "wr = None" and w: "encodable U ?new"
  proof -
    have 1: "update_readme U fs readme_path keymap_content = (?fs1, [], Inr ())"
      using update_readme_general [of fs readme_path stored pre mid post U keymap_content]
        f c s e w wr by simp
    obtain mid2 where
      c2: "universal_newlines (write_newlines U ?new) =
        pre @ start_marker @ mid2 @ end_marker @ up_to_end post"
      and e2: "\<not> contains (pre @ start_marker @ mid2) end_marker"
      using second_text [OF c e m, of U] by blast
    have f1: "?fs1 readme_path = Regular None (write_newlines U ?new)" by simp
    have w2: "encodable U (pre @ start_marker @ [10] @ keymap_content @ [10] @ end_marker @
        up_to_end (up_to_end post))"
      using w by (simp add: up_to_end_id [OF up_to_end_clean])
    have "update_readme U ?fs1 readme_path keymap_content =
        (?fs1(readme_path := Regular None (write_newlines U
           (pre @ start_marker @ [10] @ keymap_content @ [10] @ end_marker @
            up_to_end (up_to_end post)))), [], Inr ())"
      by (rule update_readme_general
          [of ?fs1 readme_path "write_newlines U ?new" pre mid2 "up_to_end post" U
            keymap_content, OF f1 c2 s e2 w2])
    then have 2: "update_readme U ?fs1 readme_path keymap_content = (?fs1, [], Inr ())"
      by (simp add: up_to_end_id [OF up_to_end_clean])
    show ?thesis using 1 2 by blast
  qed
  have "fst (update_readme U (fst (update_readme U fs readme_path keymap_content))
            readme_path keymap_content) =
       fst (update_readme U fs readme_path keymap_content)"
  proof (cases wr)
    case (Some err)
    then have "update_readme U fs readme_path keymap_content = (fs, [], Inl err)"
      using update_readme_refused [of fs readme_path err stored pre mid post U keymap_content]
        f c s e by simp
    then show ?thesis by simp
  next
    case None
    show ?thesis
    proof (cases "encodable U ?new")
      case True
      then show ?thesis using ok None by simp
    next
      case False
      let ?fs0 = "fs(readme_path := Regular None [])"
      have 1: "update_readme U fs readme_path keymap_content =
          (?fs0, [], Inl UnicodeEncodeError)"
        using update_readme_unencodable
          [of fs readme_path stored pre mid post U keymap_content] f c s e False None
        by simp
      have "\<not> contains [] start_marker"
        using marker_shape(6) by (simp add: contains_def)
      then have "fst (update_readme U ?fs0 readme_path keymap_content) = ?fs0"
        by (simp add: update_readme_def path_exists_def read_text_def print_warning_def
            split: sum.splits)
      then show ?thesis using 1 by simp
    qed
  qed
  then show "fst (update_readme U (fst (update_readme U fs readme_path keymap_content))
            readme_path keymap_content) =
       fst (update_readme U fs readme_path keymap_content) \<and>
     (wr = None \<and>
      encodable U (pre @ start_marker @ [10] @ keymap_content @ [10] @ end_marker @
        up_to_end post) \<longrightarrow>
        (\<exists>fs1. update_readme U fs readme_path keymap_content = (fs1, [], Inr ()) \<and>
               update_readme U fs1 readme_path keymap_content = (fs1, [], Inr ())))"
    using ok by blast
qed

theorem update_readme_idempotent_witness:
  "sample_files (str ''# Corne'' @ [13, 10] @ start_marker @ str ''old'' @ end_marker @ [13, 10])
     (str ''README.md'') =
     Regular None (str ''# Corne'' @ [13, 10] @ start_marker @ str ''old'' @ end_marker @ [13, 10]) \<and>
   universal_newlines
     (str ''# Corne'' @ [13, 10] @ start_marker @ str ''old'' @ end_marker @ [13, 10]) =
     (str ''# Corne'' @ [10]) @ start_marker @ str ''old'' @ end_marker @ [10] \<and>
   \<not> contains (str ''# Corne'' @ [10]) start_marker \<and>
   \<not> contains ((str ''# Corne'' @ [10]) @ start_marker @ str ''old'') end_marker \<and>
   \<not> contains sample_markdown end_marker \<and>
   encodable ascii_runtime
     ((str ''# Corne'' @ [10]) @ start_marker @ [10] @ sample_markdown @ [10] @ end_marker @
      up_to_end [10]) \<and>
   fst (update_readme ascii_runtime
     (fst (update_readme ascii_runtime
        (sample_files
           (str ''# Corne'' @ [13, 10] @ start_marker @ str ''old'' @ end_marker @ [13, 10]))
        (str ''README.md'') sample_markdown))
     (str ''README.md'') sample_markdown) =
   fst (update_readme ascii_runtime
     (sample_files (str ''# Corne'' @ [13, 10] @ start_marker @ str ''old'' @ end_marker @ [13, 10]))
     (str ''README.md'') sample_markdown) \<and>
   (\<exists>fs1. update_readme ascii_runtime
       (sample_files
          (str ''# Corne'' @ [13, 10] @ start_marker @ str ''old'' @ end_marker @ [13, 10]))
       (str ''README.md'') sample_markdown = (fs1, [], Inr ()) \<and>
     update_readme ascii_runtime fs1 (str ''README.md'') sample_markdown = (fs1, [], Inr ()))"
proof -
  let ?crlf = "str ''# Corne'' @ [13, 10] @ start_marker @ str ''old'' @ end_marker @ [13, 10]"
  have f: "sample_files ?crlf (str ''README.md'') = Regular None ?crlf"
    by (simp add: sample_files_def)
  have k: "universal_newlines ?crlf =
      (str ''# Corne'' @ [10]) @ start_marker @ str ''old'' @ end_marker @ [10]"
    "\<not> contains (str ''# Corne'' @ [10]) start_marker"
    "\<not> contains ((str ''# Corne'' @ [10]) @ start_marker @ str ''old'') end_marker"
    "\<not> contains sample_markdown end_marker"
    "encodable ascii_runtime
       ((str ''# Corne'' @ [10]) @ start_marker @ [10] @ sample_markdown @ [10] @ end_marker @
        up_to_end [10])"
    by code_simp+
  note T = update_readme_idempotent
      [where fs = "sample_files ?crlf" and readme_path = "str ''README.md''" and wr = None
        and stored = ?crlf and pre = "str ''# Corne'' @ [10]" and mid = "str ''old''"
        and post = "[10]" and U = ascii_runtime and keymap_content = sample_markdown]
  have 1: "fst (update_readme ascii_runtime
     (fst (update_readme ascii_runtime (sample_files ?crlf) (str ''README.md'') sample_markdown))
     (str ''README.md'') sample_markdown) =
   fst (update_readme ascii_runtime (sample_files ?crlf) (str ''README.md'') sample_markdown)"
    using T f k by blast
  have 2: "\<exists>fs1. update_readme ascii_runtime (sample_files ?crlf) (str ''README.md'')
        sample_markdown = (fs1, [], Inr ()) \<and>
      update_readme ascii_runtime fs1 (str ''README.md'') sample_markdown = (fs1, [], Inr ())"
    using T f k by blast
  show ?thesis
    by (intro conjI f k 1 2)
qed

text \<open>
  The claim as first stated covers every file that contains both markers. When the end
  marker comes first, each splice reads the text after that early end marker, start marker
  included, and appends it again: the second run does not reproduce the first.
\<close>

theorem end_before_start_counterexample:
  "contains (end_marker @ start_marker) start_marker \<and>
   contains (end_marker @ start_marker) end_marker \<and>
   fst (update_readme ascii_runtime (sample_files (end_marker @ start_marker))
          (str ''README.md'') (str ''M'')) (str ''README.md'') =
     Regular None
       (end_marker @ start_marker @ [10] @ str ''M'' @ [10] @ end_marker @ start_marker) \<and>
   fst (update_readme ascii_runtime
          (fst (update_readme ascii_runtime (sample_files (end_marker @ start_marker))
                  (str ''README.md'') (str ''M'')))
          (str ''README.md'') (str ''M'')) (str ''README.md'') =
     Regular None
       (end_marker @ start_marker @ [10] @ str ''M'' @ [10] @ end_marker @
        (start_marker @ [10] @ str ''M'' @ [10])) \<and>
   end_marker @ start_marker @ [10] @ str ''M'' @ [10] @ end_marker @ start_marker \<noteq>
   end_marker @ start_marker @ [10] @ str ''M'' @ [10] @ end_marker @
     (start_marker @ [10] @ str ''M'' @ [10])"
  by code_simp

text \<open>
  The condition on the markdown is needed as well: an end marker inside it is found by the
  second run before the one the first run wrote.
\<close>

lemma marker_in_markdown_not_idempotent:
  "fst (update_readme ascii_runtime (sample_files (start_marker @ end_marker))
          (str ''README.md'') end_marker) (str ''README.md'') =
     Regular None (start_marker @ [10] @ end_marker @ [10] @ end_marker) \<and>
   fst (update_readme ascii_runtime
          (fst (update_readme ascii_runtime (sample_files (start_marker @ end_marker))
                  (str ''README.md'') end_marker))
          (str ''README.md'') end_marker) (str ''README.md'') =
     Regular None (start_marker @ [10] @ end_marker @ [10] @ end_marker @ [10])"
  by code_simp

subsection \<open>A destination without markers\<close>

text \<open>
  Claim C6, as amended. When the destination does not exist, or is a text file that can
  be read and lacks one of the two markers, \<open>update_readme\<close> writes nothing and prints
  the warning; a run of the script whose keymap could be rendered then prints its
  confirmation line and finishes normally, with exit status 0. Both lines must be
  printable on standard output.
\<close>

theorem update_readme_no_markers:
  "(fs readme_path = Absent \<or>
    (\<exists>wr stored. fs readme_path = Regular wr stored \<and>
       \<not> (contains (universal_newlines stored) start_marker \<and>
          contains (universal_newlines stored) end_marker))) \<and>
   printable U (warning readme_path) \<longrightarrow>
   update_readme U fs readme_path keymap_content = (fs, [warning readme_path], Inr ()) \<and>
   (3 \<le> length argv \<and> argv ! 2 = readme_path \<and>
    generate_markdown U fs (argv ! 1) = Inr keymap_content \<and>
    printable U (str ''Updated '' @ readme_path) \<longrightarrow>
      main U argv fs = (fs, [warning readme_path, str ''Updated '' @ readme_path], Finished) \<and>
      exit_status (snd (snd (main U argv fs))) = 0)"
proof (intro impI, elim conjE)
  assume a: "fs readme_path = Absent \<or>
    (\<exists>wr stored. fs readme_path = Regular wr stored \<and>
       \<not> (contains (universal_newlines stored) start_marker \<and>
          contains (universal_newlines stored) end_marker))"
    and p: "printable U (warning readme_path)"
  have u: "update_readme U fs readme_path keymap_content = (fs, [warning readme_path], Inr ())"
    using a p
    by (auto simp: update_readme_def path_exists_def read_text_def print_warning_def
        print_line_def)
  have "main U argv fs = (fs, [warning readme_path, str ''Updated '' @ readme_path], Finished)"
    if "3 \<le> length argv" "argv ! 2 = readme_path"
      "generate_markdown U fs (argv ! 1) = Inr keymap_content"
      "printable U (str ''Updated '' @ readme_path)"
    using that u by (simp add: main_def getitem_def bind_err_def print_line_def)
  then show "update_readme U fs readme_path keymap_content =
      (fs, [warning readme_path], Inr ()) \<and>
   (3 \<le> length argv \<and> argv ! 2 = readme_path \<and>
    generate_markdown U fs (argv ! 1) = Inr keymap_content \<and>
    printable U (str ''Updated '' @ readme_path) \<longrightarrow>
      main U argv fs = (fs, [warning readme_path, str ''Updated '' @ readme_path], Finished) \<and>
      exit_status (snd (snd (main U argv fs))) = 0)"
    using u by simp
qed

theorem update_readme_no_markers_witness:
  "keymap_only (str ''README.md'') = Absent \<and>
   printable ascii_runtime (warning (str ''README.md'')) \<and>
   update_readme ascii_runtime keymap_only
     (str ''README.md'') sample_markdown =
     (keymap_only,
      [warning (str ''README.md'')], Inr ()) \<and>
   sample_files (str ''# Corne'') (str ''README.md'') = Regular None (str ''# Corne'') \<and>
   \<not> contains (universal_newlines (str ''# Corne'')) start_marker \<and>
   3 \<le> length [str ''generate_keymap.py'', str ''corne.keymap'', str ''README.md''] \<and>
   [str ''generate_keymap.py'', str ''corne.keymap'', str ''README.md''] ! 2 = str ''README.md'' \<and>
   generate_markdown ascii_runtime (sample_files (str ''# Corne''))
     ([str ''generate_keymap.py'', str ''corne.keymap'', str ''README.md''] ! 1) =
     Inr sample_markdown \<and>
   printable ascii_runtime (str ''Updated '' @ str ''README.md'') \<and>
   update_readme ascii_runtime (sample_files (str ''# Corne'')) (str ''README.md'')
     sample_markdown =
     (sample_files (str ''# Corne''), [warning (str ''README.md'')], Inr ()) \<and>
   main ascii_runtime [str ''generate_keymap.py'', str ''corne.keymap'', str ''README.md'']
     (sample_files (str ''# Corne'')) =
     (sample_files (str ''# Corne''),
      [warning (str ''README.md''), str ''Updated '' @ str ''README.md''], Finished) \<and>
   exit_status (snd (snd (main ascii_runtime
     [str ''generate_keymap.py'', str ''corne.keymap'', str ''README.md'']
     (sample_files (str ''# Corne''))))) = 0"
proof -
  let ?argv = "[str ''generate_keymap.py'', str ''corne.keymap'', str ''README.md'']"
  let ?fs0 = keymap_only
  have f: "?fs0 (str ''README.md'') = Absent" by code_simp
  have f2: "sample_files (str ''# Corne'') (str ''README.md'') = Regular None (str ''# Corne'')"
    by (simp add: sample_files_def)
  have p: "printable ascii_runtime (warning (str ''README.md''))"
    "printable ascii_runtime (str ''Updated '' @ str ''README.md'')"
    "\<not> contains (universal_newlines (str ''# Corne'')) start_marker"
    by code_simp+
  have a: "3 \<le> length ?argv" "?argv ! 2 = str ''README.md''"
    by simp_all
  have g: "generate_markdown ascii_runtime (sample_files (str ''# Corne'')) (?argv ! 1) =
      Inr sample_markdown"
    by code_simp
  have 1: "update_readme ascii_runtime ?fs0 (str ''README.md'') sample_markdown =
      (?fs0, [warning (str ''README.md'')], Inr ())"
    using f p(1)
      update_readme_no_markers [where fs = ?fs0 and readme_path = "str ''README.md''"
        and U = ascii_runtime and keymap_content = sample_markdown]
    by blast
  note T = update_readme_no_markers
      [where fs = "sample_files (str ''# Corne'')" and readme_path = "str ''README.md''"
        and U = ascii_runtime and keymap_content = sample_markdown and argv = ?argv]
  have 2: "update_readme ascii_runtime (sample_files (str ''# Corne'')) (str ''README.md'')
      sample_markdown = (sample_files (str ''# Corne''), [warning (str ''README.md'')], Inr ())"
    using T f2 p by blast
  have 3: "main ascii_runtime ?argv (sample_files (str ''# Corne'')) =
     (sample_files (str ''# Corne''),
      [warning (str ''README.md''), str ''Updated '' @ str ''README.md''], Finished) \<and>
     exit_status (snd (snd (main ascii_runtime ?argv (sample_files (str ''# Corne''))))) = 0"
    using T f2 p a g by blast
  show ?thesis
    by (intro conjI f f2 p a g 1 2 3 [THEN conjunct1] 3 [THEN conjunct2])
qed

text \<open>
  The claim as first stated covers every destination that exists and does not contain
  the markers. A directory is one: \<^verbatim>\<open>exists()\<close> is true, \<^verbatim>\<open>read_text()\<close> raises,
  nobody catches the exception, and the run ends with exit status 1 and no warning.
\<close>

theorem unreadable_destination_counterexample:
  "path_exists
     ((sample_files [])(str ''docs'' := Unreadable IsADirectoryError)) (str ''docs'') =
     Inr True \<and>
   snd (main ascii_runtime [str ''generate_keymap.py'', str ''corne.keymap'', str ''docs'']
     ((sample_files [])(str ''docs'' := Unreadable IsADirectoryError))) =
     ([], Uncaught IsADirectoryError) \<and>
   exit_status (snd (snd (main ascii_runtime
     [str ''generate_keymap.py'', str ''corne.keymap'', str ''docs'']
     ((sample_files [])(str ''docs'' := Unreadable IsADirectoryError))))) = 1"
  by code_simp

end
